theory Spec2Isabelle
  imports Complex_Main "HOL-Library.Monad_Syntax"
begin

section \<open>SCPI enum members: the uniqueness check\<close>

text \<open>
  \<^verbatim>\<open>src/packages/project-editor/features/scpi/enum.ts\<close>, class \<^verbatim>\<open>ScpiEnumMember\<close>.
  A member has an observable \<^verbatim>\<open>name\<close> and a \<^verbatim>\<open>value\<close>; a property that was never set
  is \<^verbatim>\<open>undefined\<close>, modelled as \<open>None\<close>.
\<close>

record ScpiEnumMember =
  member_name :: "string option"
  member_value :: "string option"

text \<open>
  The two messages \<^verbatim>\<open>check\<close> can produce:
  \<^verbatim>\<open>new output.Message(output.Type.ERROR, text, getChildOfObject(this, "name"))\<close> and
  \<^verbatim>\<open>output.propertyNotSetMessage(this, "name")\<close>. The second is built by the
  \<^verbatim>\<open>output\<close> module, which is not among the sources; it is kept as a constructor that
  records the property name.
\<close>

datatype message =
  ErrorMessage string
| PropertyNotSetMessage string

text \<open>
  JavaScript truthiness of a string-valued property: \<^verbatim>\<open>undefined\<close> and the empty string
  are falsy.
\<close>

definition truthy :: "string option \<Rightarrow> bool" where
  "truthy s = (case s of None \<Rightarrow> False | Some t \<Rightarrow> t \<noteq> [])"

text \<open>
  The body of the \<^verbatim>\<open>for\<close> loop of \<^verbatim>\<open>check\<close>. The member \<^verbatim>\<open>this\<close> is an object of its parent
  array \<^verbatim>\<open>arr\<close>, so it is given by its position \<open>this\<close> in \<open>arr\<close>: \<^verbatim>\<open>arr[i] === this\<close> is
  \<open>i = this\<close>. The loop state is the pair \<^verbatim>\<open>(thisIndex, otherIndex)\<close>, both \<open>-1\<close> at the start.
\<close>

definition check_step :: "ScpiEnumMember list \<Rightarrow> nat \<Rightarrow> nat \<Rightarrow> int \<times> int \<Rightarrow> int \<times> int" where
  "check_step arr this i st =
     (case st of (thisIndex, otherIndex) \<Rightarrow>
        if i = this then (int i, otherIndex)
        else if i \<noteq> this \<and> member_name (arr ! i) = member_name (arr ! this) then (thisIndex, int i)
        else (thisIndex, otherIndex))"

definition check_loop :: "ScpiEnumMember list \<Rightarrow> nat \<Rightarrow> int \<times> int" where
  "check_loop arr this = fold (check_step arr this) [0..<length arr] (-1, -1)"

definition not_unique_text :: "string \<Rightarrow> string" where
  "not_unique_text n = ''Member name '' @ [CHR 0x27] @ n @ [CHR 0x27] @ '' is not unique''"

definition check :: "ScpiEnumMember list \<Rightarrow> nat \<Rightarrow> message list" where
  "check arr this =
     (if truthy (member_name (arr ! this)) then
        (case check_loop arr this of (thisIndex, otherIndex) \<Rightarrow>
           if otherIndex \<noteq> -1 \<and> thisIndex > otherIndex
           then [ErrorMessage (not_unique_text (the (member_name (arr ! this))))]
           else [])
      else [PropertyNotSetMessage ''name''])"

text \<open>A message is a uniqueness message when it is the error built in the loop's branch.\<close>

definition is_not_unique :: "message \<Rightarrow> bool" where
  "is_not_unique m = (case m of ErrorMessage t \<Rightarrow> True | PropertyNotSetMessage p \<Rightarrow> False)"

text \<open>
  \<open>same_name arr this j\<close>: the sibling at \<open>j\<close> is another member with the same name.
\<close>

definition same_name :: "ScpiEnumMember list \<Rightarrow> nat \<Rightarrow> nat \<Rightarrow> bool" where
  "same_name arr this j = (j \<noteq> this \<and> member_name (arr ! j) = member_name (arr ! this))"


section \<open>The drawing module\<close>

text \<open>
  \<^verbatim>\<open>src/unnamed/part_000\<close> is the drawing module: a bounded cache of rendered canvases
  (\<^verbatim>\<open>drawFromCache\<close>), the cache-key builder (\<^verbatim>\<open>getCacheId\<close>), the primitive renderers and
  the widget adapters. The renderers paint through the \<^verbatim>\<open>lcd\<close> module, which is not among
  the sources: a canvas is therefore modelled by its size and the list of \<^verbatim>\<open>lcd\<close> and
  context calls issued on it, in order.
\<close>

subsection \<open>Fonts, images and canvases\<close>

record Glyph =
  encoding :: nat
  dx :: int

record Font =
  font_id :: string
  font_modificationTime :: "nat option"
  font_height :: int
  font_glyphs :: "Glyph list"

record Image =
  image_width :: int
  image_height :: int

type_synonym color = string

text \<open>
  One constructor per painting call the module makes. \<open>FillRect\<close> carries the optional
  corner radius argument of \<^verbatim>\<open>lcd.fillRect\<close>; the line calls of the scale renderer take
  fractional coordinates (\<^verbatim>\<open>l1 / 2\<close>), so they carry rationals. \<open>DrawImage\<close> is
  \<^verbatim>\<open>ctx.drawImage(canvas, x, y)\<close>.
\<close>

datatype draw_op =
  SetColor color
| SetBackColor color
| FillRect int int int int "int option"
| DrawStr string int int Font
| DrawBitmap Image int int int int
| DrawHLine rat rat rat
| DrawVLine rat rat rat
| DrawImage canvas int int
and canvas = Canvas (canvas_width: int) (canvas_height: int) (canvas_ops: "draw_op list")

definition paint :: "draw_op list \<Rightarrow> canvas \<Rightarrow> canvas" where
  "paint os c = Canvas (canvas_width c) (canvas_height c) (canvas_ops c @ os)"

subsection \<open>The draw cache\<close>

text \<open>
  The module state: \<^verbatim>\<open>let cache: string[] = []\<close>, the keys in insertion order, and
  \<^verbatim>\<open>let cacheMap = new Map<string, HTMLCanvasElement>()\<close>. The third field collects what
  the renderers write with \<^verbatim>\<open>console.log(e, text)\<close>.
\<close>

datatype js_error = SyntaxError

record draw_state =
  cache :: "string list"
  cacheMap :: "string \<rightharpoonup> canvas"
  console :: "(js_error \<times> string) list"

definition initial_state :: draw_state where
  "initial_state = \<lparr>cache = [], cacheMap = Map.empty, console = []\<rparr>"

definition MAX_DRAW_CACHE_SIZE :: nat where
  "MAX_DRAW_CACHE_SIZE = 1000"

text \<open>
  A render callback paints on the canvas it is given. The callbacks of this module also
  call \<^verbatim>\<open>drawText\<close> (button group, bar graph, up/down) and \<^verbatim>\<open>console.log\<close>, so a callback
  takes the module state and returns it. \<^verbatim>\<open>drawText\<close> builds its key with \<^verbatim>\<open>getCacheId\<close>,
  whose recursion over the style inheritance need not end; a call that does not return is
  \<open>None\<close>.
\<close>

type_synonym callback = "canvas \<Rightarrow> draw_state \<Rightarrow> (canvas \<times> draw_state) option"

text \<open>
  \<^verbatim>\<open>cache.shift()\<close> followed by \<^verbatim>\<open>if (cacheKey) cacheMap.delete(cacheKey)\<close>: on an empty
  array \<^verbatim>\<open>shift\<close> returns \<^verbatim>\<open>undefined\<close>, and the empty string is falsy as well, so the
  map entry is deleted only for a non-empty key.
\<close>

definition shift_oldest :: "draw_state \<Rightarrow> draw_state" where
  "shift_oldest st =
     (case cache st of
        [] \<Rightarrow> st
      | cacheKey # rest \<Rightarrow>
          if cacheKey \<noteq> []
          then st\<lparr>cache := rest, cacheMap := (cacheMap st)(cacheKey := None)\<rparr>
          else st\<lparr>cache := rest\<rparr>)"

text \<open>
  \<^verbatim>\<open>drawFromCache(section, id, w, h, callback)\<close>. The parameter \<^verbatim>\<open>id\<close> is \<open>ident\<close> here
  (\<open>id\<close> is the identity function of HOL); \<open>None\<close> is \<^verbatim>\<open>null\<close>. A stored canvas is an
  object and so always truthy: \<^verbatim>\<open>if (!canvas)\<close> is the test that the lookup found nothing.
\<close>

definition drawFromCache ::
  "string \<Rightarrow> string option \<Rightarrow> int \<Rightarrow> int \<Rightarrow> callback \<Rightarrow> draw_state \<Rightarrow> (canvas \<times> draw_state) option" where
  "drawFromCache section ident w h callback st =
     (let id' = map_option (\<lambda>i. section @ ''.'' @ i) ident;
          found = (case id' of None \<Rightarrow> None | Some k \<Rightarrow> cacheMap st k)
      in case found of
           Some canvas \<Rightarrow> Some (canvas, st)
         | None \<Rightarrow>
             (case callback (Canvas w h []) st of
                None \<Rightarrow> None
              | Some (canvas, st1) \<Rightarrow>
                  (case id' of
                     None \<Rightarrow> Some (canvas, st1)
                   | Some k \<Rightarrow>
                       let st2 = (if length (cache st1) = MAX_DRAW_CACHE_SIZE
                                  then shift_oldest st1 else st1)
                       in Some (canvas, st2\<lparr>cache := cache st2 @ [k],
                                            cacheMap := (cacheMap st2)(k \<mapsto> canvas)\<rparr>))))"


subsection \<open>Styles, bitmaps and the collaborators of the module\<close>

text \<open>
  A style is an object of the project tree with its unique \<^verbatim>\<open>_id\<close>, its
  \<^verbatim>\<open>_modificationTime\<close> (absent for an object that was never edited) and the name of the
  style it inherits from. Objects are compared by identity in the source
  (\<^verbatim>\<open>style != defaultStyle\<close>); an object is identified by its unique \<^verbatim>\<open>_id\<close>, so the
  comparison is the comparison of the records.
\<close>

record Style =
  style_id :: string
  style_modificationTime :: "nat option"
  inheritFrom :: "string option"

record Bitmap =
  bitmap_id :: string
  bitmap_modificationTime :: "nat option"
  imageElement :: "Image option"
  bitmap_backgroundColor :: "color option"

text \<open>
  \<^verbatim>\<open>getStyleProperty(style, name)\<close> belongs to the style module, which is not among the
  sources; it is a parameter of the model. Its results are collected in one record, the
  field \<open>p_name\<close> standing for \<^verbatim>\<open>getStyleProperty(style, "name")\<close>. A field is optional
  where the drawing module itself guards against \<^verbatim>\<open>undefined\<close> (\<^verbatim>\<open>|| 0\<close>, \<^verbatim>\<open>font &&\<close>);
  the paddings are used in sums without a guard and are taken as numbers.
\<close>

record StyleProperties =
  p_borderSize :: "int option"
  p_borderRadius :: "int option"
  p_borderColor :: color
  p_color :: color
  p_backgroundColor :: color
  p_alignHorizontal :: string
  p_alignVertical :: string
  p_font :: "string option"
  p_paddingHorizontal :: int
  p_paddingVertical :: int

text \<open>
  The functions the module imports and the library functions it calls:
  the registries \<^verbatim>\<open>findStyle\<close>, \<^verbatim>\<open>findFont\<close>, \<^verbatim>\<open>findBitmap\<close>, \<^verbatim>\<open>getDefaultStyle\<close>,
  the style resolver, \<^verbatim>\<open>lcd.measureStr\<close>, the data bindings \<^verbatim>\<open>data.get\<close>, \<^verbatim>\<open>data.getMin\<close>,
  \<^verbatim>\<open>data.getMax\<close>, and JavaScript's \<^verbatim>\<open>JSON.parse\<close> (on a quoted string: its result is a
  string, or it throws a \<^verbatim>\<open>SyntaxError\<close>), \<^verbatim>\<open>parseFloat\<close> (\<open>None\<close> is \<^verbatim>\<open>NaN\<close>) and the
  remainder operator \<^verbatim>\<open>%\<close> on fractional numbers (\<open>None\<close> is \<^verbatim>\<open>NaN\<close>). Numbers are exact
  rationals in the model.
\<close>

record env =
  findStyle :: "string \<Rightarrow> Style option"
  findFont :: "string \<Rightarrow> Font option"
  findBitmap :: "string \<Rightarrow> Bitmap option"
  getDefaultStyle :: Style
  getStyleProperty :: "Style \<Rightarrow> StyleProperties"
  measureStr :: "string \<Rightarrow> Font \<Rightarrow> int \<Rightarrow> int"
  data_get :: "string \<Rightarrow> string"
  data_getMin :: "string \<Rightarrow> rat"
  data_getMax :: "string \<Rightarrow> rat"
  JSON_parse :: "string \<Rightarrow> js_error + string"
  parseFloat :: "string \<Rightarrow> rat option"
  js_remainder :: "rat \<Rightarrow> rat \<Rightarrow> rat option"

definition Math_floor :: "rat \<Rightarrow> int" where
  "Math_floor x = \<lfloor>x\<rfloor>"

definition Math_round :: "rat \<Rightarrow> int" where
  "Math_round x = \<lfloor>x + 1 / 2\<rfloor>"

text \<open>
  What \<^verbatim>\<open>+\<close> appends to a string for a number (an integer here) and for a boolean.
\<close>

definition digit_char :: "nat \<Rightarrow> char" where
  "digit_char k = ''0123456789'' ! k"

fun decimal :: "nat \<Rightarrow> string" where
  "decimal n = (if 10 \<le> n then decimal (n div 10) @ [digit_char (n mod 10)] else [digit_char n])"

declare decimal.simps [simp del]

definition number_to_string :: "int \<Rightarrow> string" where
  "number_to_string i = (if 0 \<le> i then decimal (nat i) else CHR ''-'' # decimal (nat (- i)))"

definition boolean_to_string :: "bool \<Rightarrow> string" where
  "boolean_to_string b = (if b then ''true'' else ''false'')"

subsection \<open>Style accessors\<close>

definition styleGetBorderSize :: "env \<Rightarrow> Style \<Rightarrow> int option" where
  "styleGetBorderSize env style = p_borderSize (getStyleProperty env style)"

definition styleGetBorderRadius :: "env \<Rightarrow> Style \<Rightarrow> int option" where
  "styleGetBorderRadius env style = p_borderRadius (getStyleProperty env style)"

definition styleIsHorzAlignLeft :: "env \<Rightarrow> Style \<Rightarrow> bool" where
  "styleIsHorzAlignLeft env style = (p_alignHorizontal (getStyleProperty env style) = ''left'')"

definition styleIsHorzAlignRight :: "env \<Rightarrow> Style \<Rightarrow> bool" where
  "styleIsHorzAlignRight env style = (p_alignHorizontal (getStyleProperty env style) = ''right'')"

definition styleIsVertAlignTop :: "env \<Rightarrow> Style \<Rightarrow> bool" where
  "styleIsVertAlignTop env style = (p_alignVertical (getStyleProperty env style) = ''top'')"

definition styleIsVertAlignBottom :: "env \<Rightarrow> Style \<Rightarrow> bool" where
  "styleIsVertAlignBottom env style = (p_alignVertical (getStyleProperty env style) = ''bottom'')"

text \<open>\<^verbatim>\<open>let font = getStyleProperty(style, "font"); return font && findFont(font);\<close>\<close>

definition styleGetFont :: "env \<Rightarrow> Style \<Rightarrow> Font option" where
  "styleGetFont env style =
     (let font = p_font (getStyleProperty env style)
      in if truthy font then findFont env (the font) else None)"

subsection \<open>The cache-key builder\<close>

text \<open>
  \<^verbatim>\<open>getCacheId(obj: EezObject)\<close> is applied to styles, fonts and bitmaps;
  \<^verbatim>\<open>isObjectInstanceOf(obj, Style.classInfo)\<close> is the test for the first constructor.
\<close>

datatype EezObject = StyleObject Style | FontObject Font | BitmapObject Bitmap

definition object_id :: "EezObject \<Rightarrow> string" where
  "object_id obj =
     (case obj of
        StyleObject s \<Rightarrow> style_id s
      | FontObject f \<Rightarrow> font_id f
      | BitmapObject b \<Rightarrow> bitmap_id b)"

definition object_modificationTime :: "EezObject \<Rightarrow> nat option" where
  "object_modificationTime obj =
     (case obj of
        StyleObject s \<Rightarrow> style_modificationTime s
      | FontObject f \<Rightarrow> font_modificationTime f
      | BitmapObject b \<Rightarrow> bitmap_modificationTime b)"

text \<open>\<^verbatim>\<open>style.inheritFrom && findStyle(style.inheritFrom)\<close>\<close>

definition inheritFromStyle :: "env \<Rightarrow> Style \<Rightarrow> Style option" where
  "inheritFromStyle env style =
     (if truthy (inheritFrom style) then findStyle env (the (inheritFrom style)) else None)"

text \<open>
  The recursion follows the inheritance of styles and does not end on a cyclic one, so
  the function is partial: \<open>None\<close> is a call that does not return.
\<close>

partial_function (option) getCacheId :: "env \<Rightarrow> EezObject \<Rightarrow> string option" where
  "getCacheId env obj =
     (let ident = (case object_modificationTime obj of
                     Some modificationTime \<Rightarrow> object_id obj @ ''-'' @ decimal modificationTime
                   | None \<Rightarrow> object_id obj)
      in case obj of
           StyleObject style \<Rightarrow>
             do {
               id1 \<leftarrow> (case styleGetFont env style of
                         Some font \<Rightarrow> do { f \<leftarrow> getCacheId env (FontObject font); Some (ident @ f) }
                       | None \<Rightarrow> Some ident);
               (case inheritFromStyle env style of
                  Some parent \<Rightarrow>
                    do { p \<leftarrow> getCacheId env (StyleObject parent); Some (id1 @ '','' @ p) }
                | None \<Rightarrow>
                    if style \<noteq> getDefaultStyle env
                    then do { p \<leftarrow> getCacheId env (StyleObject (getDefaultStyle env));
                              Some (id1 @ '','' @ p) }
                    else Some id1)
             }
         | FontObject f \<Rightarrow> Some ident
         | BitmapObject b \<Rightarrow> Some ident)"


subsection \<open>The primitive renderers\<close>

text \<open>
  The parameter \<^verbatim>\<open>inverse\<close> of the renderers is written \<open>inverse'\<close> (\<open>inverse\<close> is a
  constant of HOL), and \<^verbatim>\<open>text\<close> is \<open>txt\<close>.
\<close>

text \<open>
  Every renderer starts with the same block: the rectangle \<^verbatim>\<open>(0, 0, w - 1, h - 1)\<close>, the
  border size and radius (\<^verbatim>\<open>|| 0\<close> replaces \<^verbatim>\<open>undefined\<close> by \<open>0\<close>), and, when the border
  size is positive, the border fill followed by the inset of the four edges and of the
  radius. \<open>border_step\<close> is that block; it returns the painting calls and the new values of
  \<^verbatim>\<open>x1, y1, x2, y2, borderRadius\<close>.
\<close>

definition or_zero :: "int option \<Rightarrow> int" where
  "or_zero v = (case v of None \<Rightarrow> 0 | Some n \<Rightarrow> n)"

definition border_step ::
  "env \<Rightarrow> Style \<Rightarrow> int \<Rightarrow> int \<Rightarrow> draw_op list \<times> int \<times> int \<times> int \<times> int \<times> int" where
  "border_step env style w h =
     (let x1 = 0; y1 = 0; x2 = w - 1; y2 = h - 1;
          borderSize = or_zero (styleGetBorderSize env style);
          borderRadius = or_zero (styleGetBorderRadius env style)
      in if borderSize > 0
         then ([SetColor (p_borderColor (getStyleProperty env style)),
                FillRect x1 y1 x2 y2 (Some borderRadius)],
               x1 + borderSize, y1 + borderSize, x2 - borderSize, y2 - borderSize,
               max (borderRadius - borderSize) 0)
         else ([], x1, y1, x2, y2, borderRadius))"

text \<open>
  \<^verbatim>\<open>try { text = JSON.parse('"' + text + '"'); } catch (e) { console.log(e, text); }\<close>
\<close>

definition unescape :: "env \<Rightarrow> string \<Rightarrow> draw_state \<Rightarrow> string \<times> draw_state" where
  "unescape env txt st =
     (case JSON_parse env ([CHR 0x22] @ txt @ [CHR 0x22]) of
        Inr parsed \<Rightarrow> (parsed, st)
      | Inl e \<Rightarrow> (txt, st\<lparr>console := console st @ [(e, txt)]\<rparr>))"

text \<open>The colours set before the text is drawn.\<close>

definition text_colors :: "bool \<Rightarrow> color \<Rightarrow> color \<Rightarrow> draw_op list" where
  "text_colors inverse' styleColor styleBackgroundColor =
     (if inverse' then [SetBackColor styleColor, SetColor styleBackgroundColor]
      else [SetBackColor styleBackgroundColor, SetColor styleColor])"

definition drawText_callback ::
  "env \<Rightarrow> string \<Rightarrow> int \<Rightarrow> int \<Rightarrow> Style \<Rightarrow> bool \<Rightarrow> color option \<Rightarrow> callback" where
  "drawText_callback env txt w h style inverse' overrideBackgroundColor ctx st =
     (case border_step env style w h of
        (border_ops, x1, y1, x2, y2, borderRadius) \<Rightarrow>
          let styleColor = p_color (getStyleProperty env style);
              styleBackgroundColor =
                (case overrideBackgroundColor of
                   Some c \<Rightarrow> c
                 | None \<Rightarrow> p_backgroundColor (getStyleProperty env style));
              backgroundColor = (if inverse' then styleColor else styleBackgroundColor);
              fill_ops = [SetColor backgroundColor, FillRect x1 y1 x2 y2 (Some borderRadius)]
          in case styleGetFont env style of
               None \<Rightarrow> Some (paint (border_ops @ fill_ops) ctx, st)
             | Some font \<Rightarrow>
                 (case unescape env txt st of
                    (txt', st') \<Rightarrow>
                      let width = measureStr env txt' font (x2 - x1 + 1);
                          height = font_height font;
                          x_offset =
                            (if styleIsHorzAlignLeft env style
                             then x1 + p_paddingHorizontal (getStyleProperty env style)
                             else if styleIsHorzAlignRight env style
                             then x2 - p_paddingHorizontal (getStyleProperty env style) - width
                             else Math_floor (of_int x1 + of_int (x2 - x1 + 1 - width) / 2));
                          y_offset =
                            (if styleIsVertAlignTop env style
                             then y1 + p_paddingVertical (getStyleProperty env style)
                             else if styleIsVertAlignBottom env style
                             then y2 - p_paddingVertical (getStyleProperty env style) - height
                             else Math_floor (of_int y1 + of_int (y2 - y1 + 1 - height) / 2))
                      in Some (paint (border_ops @ fill_ops
                                       @ text_colors inverse' styleColor styleBackgroundColor
                                       @ [DrawStr txt' x_offset y_offset font]) ctx,
                               st')))"

definition drawText ::
  "env \<Rightarrow> string \<Rightarrow> int \<Rightarrow> int \<Rightarrow> Style \<Rightarrow> bool \<Rightarrow> color option \<Rightarrow> draw_state \<Rightarrow>
   (canvas \<times> draw_state) option" where
  "drawText env txt w h style inverse' overrideBackgroundColor st =
     do {
       cid \<leftarrow> getCacheId env (StyleObject style);
       drawFromCache ''drawText''
         (Some (cid @ ''.'' @ txt @ ''.'' @ number_to_string w @ ''.'' @ number_to_string h
                  @ ''.'' @ boolean_to_string inverse'))
         w h (drawText_callback env txt w h style inverse' overrideBackgroundColor) st
     }"

text \<open>
  The word-wrap of \<^verbatim>\<open>drawMultilineText\<close>. The inner loop
  \<^verbatim>\<open>while (width > x2 - x + 1) { y += height; if (y + height > y2) break; x = x1; }\<close>
  does not end when the word is wider than the box and \<^verbatim>\<open>height\<close> is not positive.
\<close>

partial_function (option) wrap_word ::
  "int \<Rightarrow> int \<Rightarrow> int \<Rightarrow> int \<Rightarrow> int \<Rightarrow> int \<times> int \<Rightarrow> (int \<times> int) option" where
  "wrap_word width height x1 x2 y2 xy =
     (case xy of
        (x, y) \<Rightarrow>
          if width > x2 - x + 1
          then (if y + height + height > y2 then Some (x, y + height)
                else wrap_word width height x1 x2 y2 (x1, y + height))
          else Some (x, y))"

definition is_space :: "char \<Rightarrow> bool" where
  "is_space c = (c = CHR '' '')"

definition is_newline :: "char \<Rightarrow> bool" where
  "is_newline c = (c = CHR 0x0A)"

text \<open>
  The outer \<^verbatim>\<open>while (true)\<close> loop, with the loop variables \<^verbatim>\<open>i, x, y\<close> and the painting
  calls issued so far. \<open>colors\<close> are the two colour calls made before each word, and
  \<open>lcd_measureStr\<close> is \<^verbatim>\<open>lcd.measureStr\<close>.
\<close>

partial_function (option) multiline_loop ::
  "(string \<Rightarrow> Font \<Rightarrow> int \<Rightarrow> int) \<Rightarrow> Font \<Rightarrow> string \<Rightarrow> draw_op list \<Rightarrow>
   int \<Rightarrow> int \<Rightarrow> int \<Rightarrow> int \<Rightarrow> int \<Rightarrow> nat \<times> int \<times> int \<Rightarrow> draw_op list \<Rightarrow> draw_op list option" where
  "multiline_loop lcd_measureStr font txt colors x1 x2 y2 height spaceWidth ixy acc =
     (case ixy of
        (j, x0, y0) \<Rightarrow>
          let word = takeWhile (\<lambda>c. \<not> is_space c \<and> \<not> is_newline c) (drop j txt);
              i = j + length word;
              width = lcd_measureStr word font 0
          in case wrap_word width height x1 x2 y2 (x0, y0) of
               None \<Rightarrow> None
             | Some (x, y) \<Rightarrow>
                 if y + height > y2 then Some acc
                 else
                   let acc' = acc @ colors @ [DrawStr word x y font];
                       spaces = length (takeWhile is_space (drop i txt));
                       x' = x + width + int spaces * spaceWidth;
                       i' = i + spaces
                   in if i' = length txt \<or> is_newline (txt ! i')
                      then (if i' = length txt then Some acc'
                            else
                              let extraHeightBetweenParagraphs =
                                    Math_floor (2 / 10 * of_int height);
                                  y' = y + height + extraHeightBetweenParagraphs
                              in if y' + height > y2 then Some acc'
                                 else multiline_loop lcd_measureStr font txt colors x1 x2 y2 height spaceWidth
                                        (i' + 1, x1, y') acc')
                      else multiline_loop lcd_measureStr font txt colors x1 x2 y2 height spaceWidth
                             (i', x', y) acc')"

definition drawMultilineText_callback ::
  "env \<Rightarrow> string \<Rightarrow> int \<Rightarrow> int \<Rightarrow> Style \<Rightarrow> bool \<Rightarrow> callback" where
  "drawMultilineText_callback env txt w h style inverse' ctx st =
     (case border_step env style w h of
        (border_ops, x1, y1, x2, y2, borderRadius) \<Rightarrow>
          let backgroundColor =
                (if inverse' then p_color (getStyleProperty env style)
                 else p_backgroundColor (getStyleProperty env style));
              fill_ops = [SetColor backgroundColor, FillRect x1 y1 x2 y2 (Some borderRadius)]
          in case styleGetFont env style of
               None \<Rightarrow> Some (paint (border_ops @ fill_ops) ctx, st)
             | Some font \<Rightarrow>
                 (case unescape env txt st of
                    (txt', st') \<Rightarrow>
                      let height = Math_floor (9 / 10 * of_int (font_height font));
                          x1' = x1 + p_paddingHorizontal (getStyleProperty env style);
                          x2' = x2 - p_paddingHorizontal (getStyleProperty env style);
                          y1' = y1 + p_paddingVertical (getStyleProperty env style);
                          y2' = y2 - p_paddingVertical (getStyleProperty env style);
                          spaceGlyph = find (\<lambda>glyph. encoding glyph = 32) (font_glyphs font);
                          spaceWidth = (case spaceGlyph of None \<Rightarrow> 0 | Some glyph \<Rightarrow> dx glyph);
                          colors = text_colors inverse' (p_color (getStyleProperty env style))
                                     (p_backgroundColor (getStyleProperty env style))
                      in case multiline_loop (measureStr env) font txt' colors x1' x2' y2' height spaceWidth
                                (0, x1', y1') [] of
                           None \<Rightarrow> None
                         | Some word_ops \<Rightarrow>
                             Some (paint (border_ops @ fill_ops @ word_ops) ctx, st')))"

definition drawMultilineText ::
  "env \<Rightarrow> string \<Rightarrow> int \<Rightarrow> int \<Rightarrow> Style \<Rightarrow> bool \<Rightarrow> draw_state \<Rightarrow> (canvas \<times> draw_state) option" where
  "drawMultilineText env txt w h style inverse' st =
     do {
       cid \<leftarrow> getCacheId env (StyleObject style);
       drawFromCache ''drawMultilineText''
         (Some (cid @ ''.'' @ txt @ ''.'' @ number_to_string w @ ''.'' @ number_to_string h
                  @ ''.'' @ boolean_to_string inverse'))
         w h (drawMultilineText_callback env txt w h style inverse') st
     }"

definition drawBitmap_callback ::
  "env \<Rightarrow> Bitmap \<Rightarrow> Image \<Rightarrow> int \<Rightarrow> int \<Rightarrow> Style \<Rightarrow> bool \<Rightarrow> callback" where
  "drawBitmap_callback env bitmap img w h style inverse' ctx st =
     (case border_step env style w h of
        (border_ops, x1, y1, x2, y2, borderRadius) \<Rightarrow>
          let backgroundColor =
                (if inverse' then p_color (getStyleProperty env style)
                 else p_backgroundColor (getStyleProperty env style));
              fill_ops = [SetColor backgroundColor, FillRect x1 y1 x2 y2 (Some borderRadius)];
              width = image_width img;
              height = image_height img;
              x_offset =
                (if styleIsHorzAlignLeft env style
                 then x1 + p_paddingHorizontal (getStyleProperty env style)
                 else if styleIsHorzAlignRight env style
                 then x2 - p_paddingHorizontal (getStyleProperty env style) - width
                 else Math_floor (of_int x1 + of_int (x2 - x1 - width) / 2));
              y_offset =
                (if styleIsVertAlignTop env style
                 then y1 + p_paddingVertical (getStyleProperty env style)
                 else if styleIsVertAlignBottom env style
                 then y2 - p_paddingVertical (getStyleProperty env style) - height
                 else Math_floor (of_int y1 + of_int (y2 - y1 - height) / 2))
          in Some (paint (border_ops @ fill_ops
                     @ [SetColor backgroundColor, FillRect x1 y1 x2 y2 None]
                     @ text_colors inverse' (p_color (getStyleProperty env style))
                         (p_backgroundColor (getStyleProperty env style))
                     @ [SetColor (if truthy (bitmap_backgroundColor bitmap)
                                  then the (bitmap_backgroundColor bitmap) else ''transparent''),
                        FillRect x_offset y_offset (x_offset + width - 1) (y_offset + height - 1) None,
                        DrawBitmap img x_offset y_offset width height]) ctx,
                   st))"

text \<open>
  \<^verbatim>\<open>drawBitmap\<close> and \<^verbatim>\<open>drawRectangle\<close> return \<^verbatim>\<open>undefined\<close> when there is nothing to draw:
  the inner \<open>None\<close>.
\<close>

definition drawBitmap ::
  "env \<Rightarrow> Bitmap \<Rightarrow> int \<Rightarrow> int \<Rightarrow> Style \<Rightarrow> bool \<Rightarrow> draw_state \<Rightarrow>
   (canvas option \<times> draw_state) option" where
  "drawBitmap env bitmap w h style inverse' st =
     (case imageElement bitmap of
        None \<Rightarrow> Some (None, st)
      | Some img \<Rightarrow>
          do {
            sid \<leftarrow> getCacheId env (StyleObject style);
            bid \<leftarrow> getCacheId env (BitmapObject bitmap);
            (canvas, st') \<leftarrow>
              drawFromCache ''drawBitmap''
                (Some (sid @ ''.'' @ bid @ ''.'' @ ''.'' @ number_to_string w @ ''.'' @ number_to_string h
                         @ ''.'' @ boolean_to_string inverse'))
                w h (drawBitmap_callback env bitmap img w h style inverse') st;
            Some (Some canvas, st')
          })"

definition drawRectangle_callback :: "env \<Rightarrow> int \<Rightarrow> int \<Rightarrow> Style \<Rightarrow> bool \<Rightarrow> callback" where
  "drawRectangle_callback env w h style inverse' ctx st =
     (case border_step env style w h of
        (border_ops, x1, y1, x2, y2, borderRadius) \<Rightarrow>
          Some (paint (border_ops
                  @ [SetColor (if inverse' then p_backgroundColor (getStyleProperty env style)
                               else p_color (getStyleProperty env style)),
                     FillRect x1 y1 x2 y2 (Some borderRadius)]) ctx,
                st))"



subsection \<open>Widget adapters\<close>

record Rect =
  rect_width :: int
  rect_height :: int

record UpDownWidget =
  upDown_data :: "string option"
  upDown_style :: Style
  buttonsStyle :: Style
  downButtonText :: "string option"
  upButtonText :: "string option"

text \<open>\<^verbatim>\<open>s || d\<close> on an optional string.\<close>

definition or_else :: "string option \<Rightarrow> string \<Rightarrow> string" where
  "or_else s d = (if truthy s then the s else d)"

text \<open>
  The callback of \<^verbatim>\<open>drawUpDownWidget\<close> draws three texts with \<^verbatim>\<open>drawText\<close> and copies
  each returned canvas with \<^verbatim>\<open>ctx.drawImage\<close>.
\<close>

definition drawUpDownWidget_callback :: "env \<Rightarrow> UpDownWidget \<Rightarrow> Rect \<Rightarrow> callback" where
  "drawUpDownWidget_callback env upDownWidget rect ctx st =
     (case styleGetFont env (buttonsStyle upDownWidget) of
        None \<Rightarrow> Some (ctx, st)
      | Some buttonsFont \<Rightarrow>
          do {
            (downButtonCanvas, st1) \<leftarrow>
              drawText env (or_else (downButtonText upDownWidget) ''<'')
                (font_height buttonsFont) (rect_height rect) (buttonsStyle upDownWidget) False None st;
            let ctx1 = paint [DrawImage downButtonCanvas 0 0] ctx;
            let txt = (if truthy (upDown_data upDownWidget)
                       then data_get env (the (upDown_data upDownWidget)) else '''');
            (textCanvas, st2) \<leftarrow>
              drawText env txt (rect_width rect - 2 * font_height buttonsFont) (rect_height rect)
                (upDown_style upDownWidget) False None st1;
            let ctx2 = paint [DrawImage textCanvas (font_height buttonsFont) 0] ctx1;
            (upButonCanvas, st3) \<leftarrow>
              drawText env (or_else (upButtonText upDownWidget) ''>'')
                (font_height buttonsFont) (rect_height rect) (buttonsStyle upDownWidget) False None st2;
            Some (paint [DrawImage upButonCanvas (rect_width rect - font_height buttonsFont) 0] ctx2,
                  st3)
          })"

definition drawUpDownWidget ::
  "env \<Rightarrow> UpDownWidget \<Rightarrow> Rect \<Rightarrow> draw_state \<Rightarrow> (canvas \<times> draw_state) option" where
  "drawUpDownWidget env upDownWidget rect st =
     drawFromCache ''drawUpDownWidget'' None (rect_width rect) (rect_height rect)
       (drawUpDownWidget_callback env upDownWidget rect) st"

subsubsection \<open>The scale\<close>

record ScaleWidget =
  scale_data :: "string option"
  scale_style :: Style
  needlePosition :: string
  needleWidth :: int
  needleHeight :: int

text \<open>
  The tick drawn at \<^verbatim>\<open>y_i\<close> by the loop of \<^verbatim>\<open>drawScale\<close> (the part under
  \<^verbatim>\<open>// draw ticks\<close>), at the pixel position \<open>y\<close>.
\<close>

definition drawScale_tick ::
  "env \<Rightarrow> Style \<Rightarrow> bool \<Rightarrow> bool \<Rightarrow> int \<Rightarrow> int \<Rightarrow> rat \<Rightarrow> int \<Rightarrow> int \<Rightarrow> int \<Rightarrow> int \<Rightarrow> draw_op list" where
  "drawScale_tick env style vertical flip x1 l1 s y_min y_max y_i y =
     (if y_i \<ge> y_min \<and> y_i \<le> y_max then
        (if js_remainder env (of_int y_i) s = Some 0 then
           [SetColor (p_borderColor (getStyleProperty env style)),
            if vertical then DrawHLine (of_int x1) (of_int y) (of_int l1)
            else DrawVLine (of_int y) (of_int x1) (of_int l1)]
         else if js_remainder env (of_int y_i) (s / 2) = Some 0 then
           [SetColor (p_borderColor (getStyleProperty env style)),
            if vertical then
              (if flip then DrawHLine (of_int x1 + of_int l1 / 2) (of_int y) (of_int l1 / 2)
               else DrawHLine (of_int x1) (of_int y) (of_int l1 / 2))
            else
              (if flip then DrawVLine (of_int y) (of_int x1 + of_int l1 / 2) (of_int l1 / 2)
               else DrawVLine (of_int y) (of_int x1) (of_int l1 / 2))]
         else if js_remainder env (of_int y_i) (s / 10) = Some 0 then
           [SetColor (p_borderColor (getStyleProperty env style)),
            if vertical then
              (if flip then DrawHLine (of_int x1 + of_int l1 - of_int l1 / 4) (of_int y) (of_int l1 / 4)
               else DrawHLine (of_int x1) (of_int y) (of_int l1 / 4))
            else
              (if flip then DrawVLine (of_int y) (of_int x1 + of_int l1 - of_int l1 / 4) (of_int l1 / 4)
               else DrawVLine (of_int y) (of_int x1) (of_int l1 / 4))]
         else
           [SetColor (p_backgroundColor (getStyleProperty env style)),
            if vertical then DrawHLine (of_int x1) (of_int y) (of_int l1)
            else DrawVLine (of_int y) (of_int x1) (of_int l1)])
      else [])"

text \<open>
  The second half of the loop body: the thumb is drawn on the rows \<^verbatim>\<open>y_i\<close> whose distance
  \<^verbatim>\<open>d = Math.abs(y_i - y_value)\<close> is at most half the needle size; the other rows of the
  needle column are erased.
\<close>

definition drawScale_thumb ::
  "env \<Rightarrow> Style \<Rightarrow> bool \<Rightarrow> bool \<Rightarrow> int \<Rightarrow> int \<Rightarrow> int \<Rightarrow> int \<Rightarrow> int \<Rightarrow> int \<Rightarrow> draw_op list" where
  "drawScale_thumb env style vertical flip x2 l2 needleSize y_value y_i y =
     (let d = \<bar>y_i - y_value\<bar> in
      if d \<le> Math_floor (of_int needleSize / 2) then
        [SetColor (p_color (getStyleProperty env style)),
         if vertical then
           (if flip then DrawHLine (of_int x2) (of_int y) (of_int (l2 - d))
            else DrawHLine (of_int (x2 + d)) (of_int y) (of_int (l2 - d)))
         else
           (if flip then DrawVLine (of_int y) (of_int x2) (of_int (l2 - d))
            else DrawVLine (of_int y) (of_int (x2 + d)) (of_int (l2 - d)))]
        @ (if y_i \<noteq> y_value then
             [SetColor (p_backgroundColor (getStyleProperty env style)),
              if vertical then
                (if flip then DrawHLine (of_int (x2 + l2 - d)) (of_int y) (of_int d)
                 else DrawHLine (of_int x2) (of_int y) (of_int d))
              else
                (if flip then DrawVLine (of_int y) (of_int (x2 + l2 - d)) (of_int d)
                 else DrawVLine (of_int y) (of_int x2) (of_int d))]
           else [])
      else
        [SetColor (p_backgroundColor (getStyleProperty env style)),
         if vertical then DrawHLine (of_int x2) (of_int y) (of_int l2)
         else DrawVLine (of_int y) (of_int x2) (of_int l2)])"

text \<open>
  \<^verbatim>\<open>drawScale(ctx, scaleWidget, rect, y_from, y_to, y_min, y_max, y_value, f, d)\<close>: the
  painting calls of the loop \<^verbatim>\<open>for (let y_i = y_from; y_i <= y_to; y_i++)\<close>.
\<close>

definition drawScale ::
  "env \<Rightarrow> ScaleWidget \<Rightarrow> Rect \<Rightarrow> int \<Rightarrow> int \<Rightarrow> int \<Rightarrow> int \<Rightarrow> int \<Rightarrow> rat \<Rightarrow> int \<Rightarrow> draw_op list" where
  "drawScale env scaleWidget rect y_from y_to y_min y_max y_value f d =
     (let vertical = (needlePosition scaleWidget = ''left'' \<or> needlePosition scaleWidget = ''right'');
          flip = (needlePosition scaleWidget = ''left'' \<or> needlePosition scaleWidget = ''top'');
          needleSize = (if vertical then needleHeight scaleWidget else needleWidth scaleWidget);
          x1 = (if vertical
                then (if flip then needleWidth scaleWidget + 2 else 0)
                else (if flip then needleHeight scaleWidget + 2 else 0));
          l1 = (if vertical
                then rect_width rect - (needleWidth scaleWidget + 2)
                else (if flip then rect_height rect - (needleHeight scaleWidget + 2)
                      else rect_height rect - needleHeight scaleWidget - 2));
          x2 = (if vertical
                then (if flip then 0 else rect_width rect - needleWidth scaleWidget)
                else (if flip then 0 else rect_height rect - needleHeight scaleWidget));
          l2 = (if vertical then needleWidth scaleWidget else needleHeight scaleWidget);
          s = 10 * f / of_int d;
          y_offset =
            (if vertical
             then Math_floor (of_int (rect_height rect) - 1
                              - of_int (rect_height rect - (y_max - y_min)) / 2)
             else Math_floor (of_int (rect_width rect - (y_max - y_min)) / 2));
          style = scale_style scaleWidget
      in concat (map (\<lambda>y_i.
           let y = (if vertical then y_offset - y_i else y_offset + y_i)
           in drawScale_tick env style vertical flip x1 l1 s y_min y_max y_i y
              @ drawScale_thumb env style vertical flip x2 l2 needleSize y_value y_i y)
           [y_from..y_to]))"

text \<open>
  The callback of \<^verbatim>\<open>drawScaleWidget\<close>. It starts with \<^verbatim>\<open>let value = 0;\<close> and never assigns
  the variable. When \<^verbatim>\<open>max\<close> is \<open>0\<close> the quotient \<^verbatim>\<open>(rect.height - needleSize) / max\<close> is
  infinite or \<^verbatim>\<open>NaN\<close>, all of \<^verbatim>\<open>y_min, y_max, y_value, y_from_min, y_from_max\<close> are \<^verbatim>\<open>NaN\<close>
  and the loop of \<^verbatim>\<open>drawScale\<close> (\<^verbatim>\<open>y_i <= y_to\<close>) makes no round: only the background is
  painted.
\<close>

definition drawScaleWidget_callback :: "env \<Rightarrow> ScaleWidget \<Rightarrow> Rect \<Rightarrow> callback" where
  "drawScaleWidget_callback env scaleWidget rect ctx st =
     (let style = scale_style scaleWidget;
          valu = (0 :: rat);
          min' = (if truthy (scale_data scaleWidget)
                 then data_getMin env (the (scale_data scaleWidget)) else 0);
          max' = (if truthy (scale_data scaleWidget)
                 then data_getMax env (the (scale_data scaleWidget)) else 0);
          background = [SetColor (p_backgroundColor (getStyleProperty env style)),
                        FillRect 0 0 (rect_width rect - 1) (rect_height rect - 1) None];
          vertical = (needlePosition scaleWidget = ''left'' \<or> needlePosition scaleWidget = ''right'');
          needleSize = (if vertical then needleHeight scaleWidget else needleWidth scaleWidget)
      in if max' = 0 then Some (paint background ctx, st)
         else
           let f0 = (if vertical
                     then of_int (Math_floor (of_int (rect_height rect - needleSize) / max'))
                     else of_int (Math_floor (of_int (rect_width rect - needleSize) / max')));
               f = (if max' > 10 then f0 else 10 * (f0 / 10));
               d = (if max' > 10 then 1 else 10);
               y_min = Math_round (min' * f);
               y_max = Math_round (max' * f);
               y_value = Math_round (valu * f);
               y_from_min = y_min - Math_floor (of_int needleSize / 2);
               y_from_max = y_max + Math_floor (of_int needleSize / 2)
           in Some (paint (background
                      @ drawScale env scaleWidget rect y_from_min y_from_max y_min y_max y_value f d)
                      ctx,
                    st))"

definition drawScaleWidget ::
  "env \<Rightarrow> ScaleWidget \<Rightarrow> Rect \<Rightarrow> draw_state \<Rightarrow> (canvas \<times> draw_state) option" where
  "drawScaleWidget env scaleWidget rect st =
     drawFromCache ''drawScaleWidget'' None (rect_width rect) (rect_height rect)
       (drawScaleWidget_callback env scaleWidget rect) st"

subsubsection \<open>The bar graph\<close>

record BarGraphWidget =
  barGraph_data :: "string option"
  barGraph_style :: Style
  orientation :: string

text \<open>
  \<^verbatim>\<open>calcPos(value)\<close>, the function nested in the callback of \<^verbatim>\<open>drawBarGraphWidget\<close>, with
  the variables \<^verbatim>\<open>d, min, max\<close> it reads as parameters (\<open>min'\<close>, \<open>max'\<close> and \<open>valu\<close> stand for
  \<^verbatim>\<open>min\<close>, \<^verbatim>\<open>max\<close> and \<^verbatim>\<open>value\<close>). The result \<open>None\<close> is \<^verbatim>\<open>NaN\<close>:
  with \<^verbatim>\<open>max - min\<close> equal to \<open>0\<close> the quotient is \<^verbatim>\<open>Infinity\<close>, \<^verbatim>\<open>-Infinity\<close> or \<^verbatim>\<open>NaN\<close> by
  the sign of \<^verbatim>\<open>value * d\<close>, and both comparisons are false on \<^verbatim>\<open>NaN\<close>.
\<close>

definition clamp_pos :: "int \<Rightarrow> int \<Rightarrow> int" where
  "clamp_pos d pos0 =
     (let pos1 = (if pos0 < 0 then 0 else pos0) in if pos1 > d then d else pos1)"

definition calcPos :: "int \<Rightarrow> rat \<Rightarrow> rat \<Rightarrow> rat \<Rightarrow> int option" where
  "calcPos d min' max' valu =
     (if max' - min' = 0 then
        (if valu * of_int d > 0 then Some d
         else if valu * of_int d < 0 then Some (if 0 > d then d else 0)
         else None)
      else Some (clamp_pos d (Math_round ((valu * of_int d) / (max' - min')))))"

text \<open>
  The start of the callback of \<^verbatim>\<open>drawBarGraphWidget\<close>, up to \<^verbatim>\<open>let pos = calcPos(value)\<close>,
  and the two \<^verbatim>\<open>fillRect\<close> calls that paint the bar from \<^verbatim>\<open>pos\<close>. The value text and the
  two threshold lines painted after them are not part of the model.
\<close>

definition barGraph_d :: "BarGraphWidget \<Rightarrow> Rect \<Rightarrow> int" where
  "barGraph_d barGraphWidget rect =
     (if orientation barGraphWidget = ''left-right'' \<or> orientation barGraphWidget = ''right-left''
      then rect_width rect else rect_height rect)"

definition barGraph_pos :: "env \<Rightarrow> BarGraphWidget \<Rightarrow> Rect \<Rightarrow> int option" where
  "barGraph_pos env barGraphWidget rect =
     (let min' = (if truthy (barGraph_data barGraphWidget)
                 then data_getMin env (the (barGraph_data barGraphWidget)) else 0);
          max' = (if truthy (barGraph_data barGraphWidget)
                 then data_getMax env (the (barGraph_data barGraphWidget)) else 0);
          valueText = (if truthy (barGraph_data barGraphWidget)
                          \<and> data_get env (the (barGraph_data barGraphWidget)) \<noteq> []
                       then data_get env (the (barGraph_data barGraphWidget)) else ''0'');
          valu = (case parseFloat env valueText of None \<Rightarrow> 0 | Some v \<Rightarrow> v)
      in calcPos (barGraph_d barGraphWidget rect) min' max' valu)"

definition barGraph_fill :: "env \<Rightarrow> BarGraphWidget \<Rightarrow> Rect \<Rightarrow> int \<Rightarrow> draw_op list" where
  "barGraph_fill env barGraphWidget rect pos =
     (let style = barGraph_style barGraphWidget;
          fg = SetColor (p_color (getStyleProperty env style));
          bg = SetColor (p_backgroundColor (getStyleProperty env style))
      in if orientation barGraphWidget = ''left-right'' then
           [fg, FillRect 0 0 (pos - 1) (rect_height rect - 1) None,
            bg, FillRect pos 0 (rect_width rect - 1) (rect_height rect - 1) None]
         else if orientation barGraphWidget = ''right-left'' then
           [bg, FillRect 0 0 (rect_width rect - pos - 1) (rect_height rect - 1) None,
            fg, FillRect (rect_width rect - pos) 0 (rect_width rect - 1) (rect_height rect - 1) None]
         else if orientation barGraphWidget = ''top-bottom'' then
           [fg, FillRect 0 0 (rect_width rect - 1) (pos - 1) None,
            bg, FillRect 0 pos (rect_width rect - 1) (rect_height rect - 1) None]
         else
           [bg, FillRect 0 0 (rect_width rect - 1) (rect_height rect - pos - 1) None,
            fg, FillRect 0 (rect_height rect - pos) (rect_width rect - 1) (rect_height rect - 1) None])"


section \<open>Specification vocabulary\<close>

subsection \<open>Sequences of calls on the draw cache\<close>

text \<open>
  One call of \<^verbatim>\<open>drawFromCache\<close> with its five arguments, and a run of calls from a state.
  A run does not return when one of its callbacks does not.
\<close>

record call =
  call_section :: string
  call_id :: "string option"
  call_w :: int
  call_h :: int
  call_callback :: callback

definition do_call :: "call \<Rightarrow> draw_state \<Rightarrow> (canvas \<times> draw_state) option" where
  "do_call c st =
     drawFromCache (call_section c) (call_id c) (call_w c) (call_h c) (call_callback c) st"

fun run :: "call list \<Rightarrow> draw_state \<Rightarrow> draw_state option" where
  "run [] st = Some st"
| "run (c # cs) st = (case do_call c st of None \<Rightarrow> None | Some (canvas, st') \<Rightarrow> run cs st')"

text \<open>The composite key of a call; \<open>None\<close> for a call with key \<^verbatim>\<open>null\<close>.\<close>

definition call_key :: "call \<Rightarrow> string option" where
  "call_key c = map_option (\<lambda>i. call_section c @ ''.'' @ i) (call_id c)"

text \<open>
  The key a call inserts in a state: its composite key when that key is not in the map
  (a miss), nothing on a hit and for the key \<^verbatim>\<open>null\<close>. \<open>inserted\<close> lists the keys a run
  inserts, oldest first.
\<close>

definition call_inserts :: "call \<Rightarrow> draw_state \<Rightarrow> string list" where
  "call_inserts c st =
     (case call_key c of
        None \<Rightarrow> []
      | Some k \<Rightarrow> if cacheMap st k = None then [k] else [])"


text \<open>The last \<open>n\<close> elements of a list.\<close>

definition takeLast :: "nat \<Rightarrow> 'a list \<Rightarrow> 'a list" where
  "takeLast n xs = drop (length xs - n) xs"

text \<open>
  A callback that only paints: it returns, and leaves the list and the map of the cache as
  they were. The callbacks of \<^verbatim>\<open>drawText\<close>, \<^verbatim>\<open>drawBitmap\<close> and \<^verbatim>\<open>drawRectangle\<close> are of
  this kind.
\<close>

definition cache_neutral :: "callback \<Rightarrow> bool" where
  "cache_neutral cb =
     (\<forall>ctx st. case cb ctx st of
                 None \<Rightarrow> False
               | Some (canvas, st') \<Rightarrow> cache st' = cache st \<and> cacheMap st' = cacheMap st)"

definition returns :: "callback \<Rightarrow> bool" where
  "returns cb = (\<forall>ctx st. cb ctx st \<noteq> None)"

text \<open>
  The state of the cache between two calls: the list has no duplicates, its elements are
  the keys of the map, no key is the empty string (a composite key contains a dot) and
  the list is not longer than the capacity.
\<close>

definition cache_inv :: "draw_state \<Rightarrow> bool" where
  "cache_inv st =
     (distinct (cache st) \<and> dom (cacheMap st) = set (cache st) \<and>
      [] \<notin> set (cache st) \<and> length (cache st) \<le> MAX_DRAW_CACHE_SIZE)"


text \<open>The entry stored on a miss, after the callback has returned in state \<open>st1\<close>.\<close>

definition store_entry :: "string \<Rightarrow> canvas \<Rightarrow> draw_state \<Rightarrow> draw_state" where
  "store_entry k c st1 =
     (let st2 = (if length (cache st1) = MAX_DRAW_CACHE_SIZE then shift_oldest st1 else st1)
      in st2\<lparr>cache := cache st2 @ [k], cacheMap := (cacheMap st2)(k \<mapsto> c)\<rparr>)"

text \<open>\<^verbatim>\<open>drawText\<close> is one call of \<^verbatim>\<open>drawFromCache\<close> with a callback that only paints.\<close>

definition drawText_call ::
  "env \<Rightarrow> string \<Rightarrow> string \<Rightarrow> int \<Rightarrow> int \<Rightarrow> Style \<Rightarrow> bool \<Rightarrow> color option \<Rightarrow> call" where
  "drawText_call env cid txt w h style inverse' ov =
     \<lparr>call_section = ''drawText'',
      call_id = Some (cid @ ''.'' @ txt @ ''.'' @ number_to_string w @ ''.'' @ number_to_string h
                        @ ''.'' @ boolean_to_string inverse'),
      call_w = w, call_h = h,
      call_callback = drawText_callback env txt w h style inverse' ov\<rparr>"

subsection \<open>Cache ids\<close>

text \<open>
  The base id of an entity: its unique identifier, followed by a dash and the
  modification timestamp when there is one.
\<close>

definition base_id :: "EezObject \<Rightarrow> string" where
  "base_id obj =
     (case object_modificationTime obj of
        None \<Rightarrow> object_id obj
      | Some t \<Rightarrow> object_id obj @ ''-'' @ decimal t)"

text \<open>
  The style a style falls back to: the one found under its \<^verbatim>\<open>inheritFrom\<close> name, or the
  global default style when none is found and the style is not the default itself.
\<close>

definition style_parent :: "env \<Rightarrow> Style \<Rightarrow> Style option" where
  "style_parent env style =
     (case inheritFromStyle env style of
        Some parent \<Rightarrow> Some parent
      | None \<Rightarrow> if style \<noteq> getDefaultStyle env then Some (getDefaultStyle env) else None)"

subsection \<open>The geometry of a rendered canvas\<close>

text \<open>
  The painting calls of the border step, the two calls that follow them (the fill of the
  inset rectangle) and the calls after those (the content).
\<close>

definition border_ops :: "env \<Rightarrow> Style \<Rightarrow> int \<Rightarrow> int \<Rightarrow> draw_op list" where
  "border_ops env style w h = fst (border_step env style w h)"


definition content_ops :: "env \<Rightarrow> Style \<Rightarrow> int \<Rightarrow> int \<Rightarrow> canvas \<Rightarrow> draw_op list" where
  "content_ops env style w h canvas =
     drop (length (border_ops env style w h) + 2) (canvas_ops canvas)"

text \<open>
  The pixels a call paints, as a box \<open>(left, top, right, bottom)\<close> with inclusive corners; a
  colour call paints nothing. A string occupies its full measured width
  (\<^verbatim>\<open>measureStr\<close> with no limit, as \<^verbatim>\<open>drawMultilineText\<close> measures a word) and the height of
  the font.
\<close>

definition op_box :: "env \<Rightarrow> draw_op \<Rightarrow> (int \<times> int \<times> int \<times> int) option" where
  "op_box env op =
     (case op of
        SetColor c \<Rightarrow> None
      | SetBackColor c \<Rightarrow> None
      | FillRect a b c d r \<Rightarrow> Some (a, b, c, d)
      | DrawStr t x y f \<Rightarrow> Some (x, y, x + measureStr env t f 0 - 1, y + font_height f - 1)
      | DrawBitmap i x y w h \<Rightarrow> Some (x, y, x + w - 1, y + h - 1)
      | DrawHLine x y l \<Rightarrow> Some (\<lfloor>x\<rfloor>, \<lfloor>y\<rfloor>, \<lceil>x + l\<rceil> - 1, \<lfloor>y\<rfloor>)
      | DrawVLine x y l \<Rightarrow> Some (\<lfloor>x\<rfloor>, \<lfloor>y\<rfloor>, \<lfloor>x\<rfloor>, \<lceil>y + l\<rceil> - 1)
      | DrawImage c x y \<Rightarrow> Some (x, y, x + canvas_width c - 1, y + canvas_height c - 1))"

definition paints_inside :: "env \<Rightarrow> int \<Rightarrow> int \<Rightarrow> int \<Rightarrow> int \<Rightarrow> draw_op \<Rightarrow> bool" where
  "paints_inside env x1 y1 x2 y2 op =
     (case op_box env op of
        None \<Rightarrow> True
      | Some (a, b, c, d) \<Rightarrow> x1 \<le> a \<and> c \<le> x2 \<and> y1 \<le> b \<and> d \<le> y2)"

text \<open>
  The shared geometry rule on a \<open>w\<close> by \<open>h\<close> canvas, with \<open>B\<close> the border size and \<open>R\<close> the
  border radius of the style: the border fill of the full rectangle comes first when
  \<open>B > 0\<close>, and the next two calls fill the rectangle inset by \<open>B\<close> with the radius
  \<open>max (R - B) 0\<close>.
\<close>

definition follows_geometry :: "env \<Rightarrow> Style \<Rightarrow> int \<Rightarrow> int \<Rightarrow> canvas \<Rightarrow> bool" where
  "follows_geometry env style w h canvas =
     (let B = or_zero (styleGetBorderSize env style);
          R = or_zero (styleGetBorderRadius env style);
          border = (if B > 0
                    then [SetColor (p_borderColor (getStyleProperty env style)),
                          FillRect 0 0 (w - 1) (h - 1) (Some R)]
                    else [])
      in take (length border) (canvas_ops canvas) = border \<and>
         (case drop (length border) (canvas_ops canvas) of
            SetColor c # FillRect x1 y1 x2 y2 r # content \<Rightarrow>
              x1 = B \<and> y1 = B \<and> x2 = w - 1 - B \<and> y2 = h - 1 - B \<and> r = Some (max (R - B) 0)
          | _ \<Rightarrow> False))"

text \<open>The content stays within the inset rectangle \<open>[B, w - B) x [B, h - B)\<close>.\<close>

definition content_within :: "env \<Rightarrow> Style \<Rightarrow> int \<Rightarrow> int \<Rightarrow> canvas \<Rightarrow> bool" where
  "content_within env style w h canvas =
     (let B = or_zero (styleGetBorderSize env style)
      in list_all (paints_inside env B B (w - 1 - B) (h - 1 - B)) (content_ops env style w h canvas))"

subsection \<open>Bar graph and scale\<close>

text \<open>
  The position the specification describes for the bar graph: the value normalized
  against the interval from \<open>min'\<close> to \<open>max'\<close>, scaled to the axis length \<open>d\<close>, rounded and
  clamped into \<open>[0, d]\<close>.
\<close>

definition normalized_pos :: "int \<Rightarrow> rat \<Rightarrow> rat \<Rightarrow> rat \<Rightarrow> int" where
  "normalized_pos d min' max' valu =
     clamp_pos d (Math_round ((valu - min') / (max' - min') * of_int d))"

text \<open>The lines painted in a given colour: the line calls that directly follow \<open>SetColor c\<close>.\<close>

fun lines_in_color :: "color \<Rightarrow> draw_op list \<Rightarrow> draw_op list" where
  "lines_in_color c (SetColor c' # DrawHLine x y l # rest) =
     (if c' = c then [DrawHLine x y l] else []) @ lines_in_color c rest"
| "lines_in_color c (SetColor c' # DrawVLine x y l # rest) =
     (if c' = c then [DrawVLine x y l] else []) @ lines_in_color c rest"
| "lines_in_color c (other # rest) = lines_in_color c rest"
| "lines_in_color c [] = []"

subsection \<open>Content that fits the inset rectangle\<close>

text \<open>
  The inset rectangle of a \<open>w\<close> by \<open>h\<close> canvas with border size \<open>B\<close> has its corners at \<open>B\<close>
  and \<open>w - 1 - B\<close>, \<open>h - 1 - B\<close>. A bitmap fits when the paddings are not negative and the
  image with its padding is smaller than the inset rectangle in both directions.
\<close>

definition bitmap_fits :: "env \<Rightarrow> Style \<Rightarrow> int \<Rightarrow> int \<Rightarrow> Image \<Rightarrow> bool" where
  "bitmap_fits env style w h img =
     (let B = or_zero (styleGetBorderSize env style);
          ph = p_paddingHorizontal (getStyleProperty env style);
          pv = p_paddingVertical (getStyleProperty env style)
      in 0 \<le> ph \<and> 0 \<le> pv \<and>
         image_width img + ph \<le> w - 1 - 2 * B \<and> image_height img + pv \<le> h - 1 - 2 * B)"

text \<open>
  A single line of text fits when, in addition, \<^verbatim>\<open>measureStr\<close> with the width of the inset
  rectangle as its limit returns the full width of the text.
\<close>

definition text_fits :: "env \<Rightarrow> Style \<Rightarrow> int \<Rightarrow> int \<Rightarrow> string \<Rightarrow> bool" where
  "text_fits env style w h t =
     (case styleGetFont env style of
        None \<Rightarrow> True
      | Some font \<Rightarrow>
          let B = or_zero (styleGetBorderSize env style);
              ph = p_paddingHorizontal (getStyleProperty env style);
              pv = p_paddingVertical (getStyleProperty env style)
          in 0 \<le> ph \<and> 0 \<le> pv \<and>
             measureStr env t font (w - 1 - 2 * B + 1) = measureStr env t font 0 \<and>
             measureStr env t font 0 + ph \<le> w - 1 - 2 * B \<and>
             font_height font + pv \<le> h - 1 - 2 * B)"

text \<open>
  The word wrap keeps the words inside the padded box by itself; what it needs is that
  neither the paddings nor the width of a space are negative, and a vertical padding that
  covers the rows by which the font is higher than the line height
  \<^verbatim>\<open>Math.floor(0.9 * font.height)\<close>.
\<close>

definition multiline_fits :: "env \<Rightarrow> Style \<Rightarrow> bool" where
  "multiline_fits env style =
     (case styleGetFont env style of
        None \<Rightarrow> True
      | Some font \<Rightarrow>
          0 \<le> p_paddingHorizontal (getStyleProperty env style) \<and>
          0 \<le> p_paddingVertical (getStyleProperty env style) \<and>
          0 \<le> font_height font \<and>
          font_height font - 1 - Math_floor (9 / 10 * of_int (font_height font))
            \<le> p_paddingVertical (getStyleProperty env style) \<and>
          0 \<le> (case find (\<lambda>glyph. encoding glyph = 32) (font_glyphs font) of
                  None \<Rightarrow> 0 | Some glyph \<Rightarrow> dx glyph))"


text \<open>
  The line height \<^verbatim>\<open>Math.floor(0.9 * font.height)\<close> is positive; with no font nothing is
  wrapped.
\<close>

definition line_height_positive :: "env \<Rightarrow> Style \<Rightarrow> bool" where
  "line_height_positive env style =
     (case styleGetFont env style of
        None \<Rightarrow> True
      | Some font \<Rightarrow> 0 < Math_floor (9 / 10 * of_int (font_height font)))"

section \<open>Example inputs\<close>





text \<open>
  A project with three styles: \<open>title\<close> inherits from \<open>base\<close>, which names no style and so
  falls back to the default style. All resolve the font \<open>f8\<close>.
\<close>

definition example_font :: Font where
  "example_font = \<lparr>font_id = ''F'', font_modificationTime = None, font_height = 10,
                    font_glyphs = [\<lparr>encoding = 32, dx = 4\<rparr>]\<rparr>"

definition example_default_style :: Style where
  "example_default_style = \<lparr>style_id = ''D'', style_modificationTime = None, inheritFrom = None\<rparr>"

definition example_base_style :: Style where
  "example_base_style = \<lparr>style_id = ''B'', style_modificationTime = Some 7, inheritFrom = None\<rparr>"

definition example_title_style :: Style where
  "example_title_style =
     \<lparr>style_id = ''T'', style_modificationTime = Some 42, inheritFrom = Some ''base''\<rparr>"

definition example_properties :: StyleProperties where
  "example_properties =
     \<lparr>p_borderSize = Some 1, p_borderRadius = Some 0, p_borderColor = ''gray'',
      p_color = ''black'', p_backgroundColor = ''white'',
      p_alignHorizontal = ''center'', p_alignVertical = ''center'',
      p_font = Some ''f8'', p_paddingHorizontal = 0, p_paddingVertical = 0\<rparr>"

definition example_env :: env where
  "example_env =
     \<lparr>findStyle = (\<lambda>n. if n = ''base'' then Some example_base_style else None),
      findFont = (\<lambda>n. if n = ''f8'' then Some example_font else None),
      findBitmap = (\<lambda>n. None),
      getDefaultStyle = example_default_style,
      getStyleProperty = (\<lambda>s. example_properties),
      measureStr = (\<lambda>s f m. 6 * int (length s)),
      data_get = (\<lambda>n. ''50''),
      data_getMin = (\<lambda>n. 0),
      data_getMax = (\<lambda>n. 20),
      JSON_parse = (\<lambda>s. if CHR 0x5C \<in> set s then Inl SyntaxError
                          else Inr (butlast (tl s))),
      parseFloat = (\<lambda>s. if s = ''50'' then Some 50 else None),
      js_remainder = (\<lambda>x y. if y = 0 then None
                             else Some (x - y * of_int (if 0 \<le> x / y then \<lfloor>x / y\<rfloor> else \<lceil>x / y\<rceil>)))\<rparr>"

definition example_rank :: "Style \<Rightarrow> nat" where
  "example_rank s =
     (if s = example_default_style then 0 else if inheritFrom s = Some ''base'' then 2 else 1)"

text \<open>A bitmap larger than the canvas it is drawn on, and an up/down widget.\<close>

definition example_image :: Image where
  "example_image = \<lparr>image_width = 100, image_height = 100\<rparr>"

definition example_bitmap :: Bitmap where
  "example_bitmap = \<lparr>bitmap_id = ''M'', bitmap_modificationTime = None,
                      imageElement = Some example_image, bitmap_backgroundColor = None\<rparr>"

definition example_upDown :: UpDownWidget where
  "example_upDown =
     \<lparr>upDown_data = Some ''v'', upDown_style = example_default_style,
      buttonsStyle = example_default_style, downButtonText = None, upButtonText = None\<rparr>"


text \<open>
  A vertical scale bound to the data item \<open>v\<close>, whose range is \<open>0\<close> to \<open>20\<close> in the example
  project, on a rectangle of 12 by 25 pixels.
\<close>

definition example_scale :: ScaleWidget where
  "example_scale =
     \<lparr>scale_data = Some ''v'', scale_style = example_default_style, needlePosition = ''left'',
      needleWidth = 3, needleHeight = 5\<rparr>"

definition example_scale_rect :: Rect where
  "example_scale_rect = \<lparr>rect_width = 12, rect_height = 25\<rparr>"

text \<open>A bitmap that fits a canvas of 10 by 10 pixels.\<close>

definition example_small_image :: Image where
  "example_small_image = \<lparr>image_width = 4, image_height = 4\<rparr>"


subsection \<open>What the loop computes\<close>

lemma check_loop_prefix:
  "fold (check_step arr this) [0..<n] (-1, -1) =
     ((if this < n then int this else -1),
      (if \<exists>j<n. same_name arr this j
       then int (Max {j. j < n \<and> same_name arr this j}) else -1))"
proof (induction n)
  case 0
  show ?case by simp
next
  case (Suc n)
  let ?S = "\<lambda>m. {j. j < m \<and> same_name arr this j}"
  have fin: "finite (?S n)" by simp
  have split: "?S (Suc n) = (if same_name arr this n then insert n (?S n) else ?S n)"
    by (auto simp: less_Suc_eq)
  have ex: "(\<exists>j<Suc n. same_name arr this j) = (same_name arr this n \<or> (\<exists>j<n. same_name arr this j))"
    by (auto simp: less_Suc_eq)
  show ?case
  proof (cases "same_name arr this n")
    case True
    then have neq: "n \<noteq> this" by (simp add: same_name_def)
    have "Max (insert n (?S n)) = n"
    proof (rule Max_eqI)
      show "finite (insert n (?S n))" by simp
      show "\<And>y. y \<in> insert n (?S n) \<Longrightarrow> y \<le> n" by auto
      show "n \<in> insert n (?S n)" by simp
    qed
    then have mx: "Max (?S (Suc n)) = n" using True by (simp only: split if_True)
    have e: "\<exists>j<Suc n. same_name arr this j" using True by blast
    have step: "check_step arr this n (fold (check_step arr this) [0..<n] (-1, -1)) =
        ((if this < n then int this else -1), int n)"
      using True neq by (simp add: Suc check_step_def same_name_def)
    have "this < Suc n \<longleftrightarrow> this < n" using neq by auto
    then show ?thesis using step e mx by simp
  next
    case False
    have S_eq: "?S (Suc n) = ?S n" using False by (simp only: split if_False)
    have e: "(\<exists>j<Suc n. same_name arr this j) = (\<exists>j<n. same_name arr this j)"
      using False by (simp add: ex)
    have step: "check_step arr this n (fold (check_step arr this) [0..<n] (-1, -1)) =
        ((if this < Suc n then int this else -1),
         (if \<exists>j<n. same_name arr this j then int (Max (?S n)) else -1))"
      using False by (auto simp add: Suc check_step_def same_name_def)
    show ?thesis using step by (simp only: upt_Suc_append [OF le0] fold_append fold_simps o_apply S_eq e)
  qed
qed

lemma check_loop_eq:
  "check_loop arr this =
     ((if this < length arr then int this else -1),
      (if \<exists>j<length arr. same_name arr this j
       then int (Max {j. j < length arr \<and> same_name arr this j}) else -1))"
  unfolding check_loop_def by (rule check_loop_prefix)

text \<open>
  The exact condition under which the error is produced: the member has a sibling of the
  same name, and the last such sibling stands before it.
\<close>

lemma check_reports_iff:
  assumes "this < length arr" and "truthy (member_name (arr ! this))"
  shows "(\<exists>m \<in> set (check arr this). is_not_unique m) \<longleftrightarrow>
         (\<exists>j<this. same_name arr this j) \<and> (\<forall>j<length arr. this < j \<longrightarrow> \<not> same_name arr this j)"
proof -
  let ?S = "{j. j < length arr \<and> same_name arr this j}"
  have fin: "finite ?S" by simp
  show ?thesis
  proof (cases "\<exists>j<length arr. same_name arr this j")
    case False
    then have "\<not> (\<exists>j<this. same_name arr this j)"
      using assms(1) by (meson less_trans)
    then have r: "((\<exists>j<this. same_name arr this j) \<and>
        (\<forall>j<length arr. this < j \<longrightarrow> \<not> same_name arr this j)) = False" by simp
    have cl: "check_loop arr this = (int this, -1)"
      unfolding check_loop_eq using False assms(1) by (simp only: if_False if_True)
    have l: "(\<exists>m \<in> set (check arr this). is_not_unique m) = False"
      using assms(2) by (simp add: check_def cl)
    show ?thesis unfolding l r ..
  next
    case True
    then have ne: "?S \<noteq> {}" by auto
    have mem: "Max ?S \<in> ?S" using Max_in [OF fin ne] .
    have neq: "Max ?S \<noteq> this" using mem by (simp add: same_name_def)
    have cl: "check_loop arr this = (int this, int (Max ?S))"
      unfolding check_loop_eq using True assms(1) by (simp only: if_False if_True)
    have rep: "(\<exists>m \<in> set (check arr this). is_not_unique m) \<longleftrightarrow> Max ?S < this"
      using assms(2) by (simp add: check_def cl is_not_unique_def)
    have "Max ?S < this \<longleftrightarrow>
          (\<exists>j<this. same_name arr this j) \<and> (\<forall>j<length arr. this < j \<longrightarrow> \<not> same_name arr this j)"
    proof
      assume lt: "Max ?S < this"
      have "\<exists>j<this. same_name arr this j" using mem lt by auto
      moreover have "\<forall>j<length arr. this < j \<longrightarrow> \<not> same_name arr this j"
      proof (intro allI impI notI)
        fix j assume "j < length arr" "this < j" "same_name arr this j"
        then have "j \<in> ?S" by simp
        then have "j \<le> Max ?S" using fin by (rule_tac Max_ge) auto
        with lt \<open>this < j\<close> show False by simp
      qed
      ultimately show "(\<exists>j<this. same_name arr this j) \<and>
          (\<forall>j<length arr. this < j \<longrightarrow> \<not> same_name arr this j)" by simp
    next
      assume r: "(\<exists>j<this. same_name arr this j) \<and>
          (\<forall>j<length arr. this < j \<longrightarrow> \<not> same_name arr this j)"
      have "Max ?S < length arr" using mem by simp
      with r mem have "\<not> this < Max ?S" by auto
      with neq show "Max ?S < this" by simp
    qed
    with rep show ?thesis by simp
  qed
qed

text \<open>
  Claim C10. The "is not unique" error is reported only on a member that has an earlier
  sibling (lower index in the parent array) of the same name; the first member of a
  duplicated name gets no uniqueness message; and a member whose name is unset gets the
  "not set" message and no uniqueness check.
\<close>

theorem ScpiEnumMember_check_unique:
  assumes "this < length arr"
  shows "((\<exists>m \<in> set (check arr this). is_not_unique m) \<longrightarrow>
            (\<exists>j<this. j < length arr \<and> member_name (arr ! j) = member_name (arr ! this)))
       \<and> (truthy (member_name (arr ! this)) \<and>
            (\<forall>j<this. member_name (arr ! j) \<noteq> member_name (arr ! this)) \<longrightarrow>
            check arr this = [])
       \<and> (\<not> truthy (member_name (arr ! this)) \<longrightarrow>
            check arr this = [PropertyNotSetMessage ''name''])"
proof (intro conjI impI)
  assume rep: "\<exists>m \<in> set (check arr this). is_not_unique m"
  have t: "truthy (member_name (arr ! this))"
  proof (rule ccontr)
    assume "\<not> truthy (member_name (arr ! this))"
    then have "check arr this = [PropertyNotSetMessage ''name'']" by (simp add: check_def)
    with rep show False by (simp add: is_not_unique_def)
  qed
  from rep check_reports_iff [OF assms t] obtain j where "j < this" "same_name arr this j"
    by blast
  with assms show "\<exists>j<this. j < length arr \<and> member_name (arr ! j) = member_name (arr ! this)"
    by (auto simp: same_name_def)
next
  assume a: "truthy (member_name (arr ! this)) \<and>
    (\<forall>j<this. member_name (arr ! j) \<noteq> member_name (arr ! this))"
  then have "\<not> (\<exists>j<this. same_name arr this j)" by (simp add: same_name_def)
  with check_reports_iff [OF assms] a have no: "\<not> (\<exists>m \<in> set (check arr this). is_not_unique m)"
    by blast
  show "check arr this = []"
  proof (cases "check arr this")
    case Nil
    then show ?thesis .
  next
    case (Cons m ms)
    with a have "is_not_unique m"
      by (auto simp: check_def is_not_unique_def split: prod.splits if_splits)
    with Cons no show ?thesis by auto
  qed
next
  assume "\<not> truthy (member_name (arr ! this))"
  then show "check arr this = [PropertyNotSetMessage ''name'']" by (simp add: check_def)
qed

theorem ScpiEnumMember_check_unique_witness:
  "(2::nat) < length [\<lparr>member_name = Some ''A'', member_value = None\<rparr>,
                      \<lparr>member_name = Some ''B'', member_value = None\<rparr>,
                      \<lparr>member_name = Some ''A'', member_value = None\<rparr>]
   \<and> check [\<lparr>member_name = Some ''A'', member_value = None\<rparr>,
             \<lparr>member_name = Some ''B'', member_value = None\<rparr>,
             \<lparr>member_name = Some ''A'', member_value = None\<rparr>] 2
       = [ErrorMessage (not_unique_text ''A'')]
   \<and> check [\<lparr>member_name = Some ''A'', member_value = None\<rparr>,
             \<lparr>member_name = Some ''B'', member_value = None\<rparr>,
             \<lparr>member_name = Some ''A'', member_value = None\<rparr>] 0 = []
   \<and> check [\<lparr>member_name = None, member_value = Some ''1''\<rparr>] 0
       = [PropertyNotSetMessage ''name'']"
proof -
  let ?arr = "[\<lparr>member_name = Some ''A'', member_value = None\<rparr>,
               \<lparr>member_name = Some ''B'', member_value = None\<rparr>,
               \<lparr>member_name = Some ''A'', member_value = None\<rparr>]"
  let ?one = "[\<lparr>member_name = None, member_value = Some ''1''\<rparr>]"
  have u: "[0..<3] = [0, 1, 2]" by (simp add: upt_rec)
  have two: "check ?arr 2 = [ErrorMessage (not_unique_text ''A'')]"
    by (simp add: check_def check_loop_def check_step_def truthy_def u)
  have h0: "(0::nat) < length ?arr" by simp
  have h1: "(0::nat) < length ?one" by simp
  from ScpiEnumMember_check_unique [OF h0] have zero: "check ?arr 0 = []"
    by (simp add: truthy_def)
  from ScpiEnumMember_check_unique [OF h1] have unset: "check ?one 0 = [PropertyNotSetMessage ''name'']"
    by (simp add: truthy_def)
  from two zero unset show ?thesis by simp
qed



section \<open>The draw cache: bound, eviction order and consistency\<close>

lemma takeLast_all: "length xs \<le> n \<Longrightarrow> takeLast n xs = xs"
  by (simp add: takeLast_def)


lemma takeLast_push:
  "length xs \<le> n \<Longrightarrow> 0 < n \<Longrightarrow>
   (if length xs = n then tl xs else xs) @ [k] = takeLast n (xs @ [k])"
  by (cases xs) (auto simp: takeLast_def)


subsection \<open>One call\<close>

lemma drawFromCache_null:
  "drawFromCache section None w h callback st = callback (Canvas w h []) st"
  by (simp add: drawFromCache_def split: option.splits prod.splits)

lemma drawFromCache_hit:
  "cacheMap st (section @ ''.'' @ i) = Some c \<Longrightarrow>
   drawFromCache section (Some i) w h callback st = Some (c, st)"
  by (simp add: drawFromCache_def)

lemma drawFromCache_miss:
  "cacheMap st (section @ ''.'' @ i) = None \<Longrightarrow>
   drawFromCache section (Some i) w h callback st =
     (case callback (Canvas w h []) st of
        None \<Rightarrow> None
      | Some (c, st1) \<Rightarrow> Some (c, store_entry (section @ ''.'' @ i) c st1))"
  by (simp add: drawFromCache_def store_entry_def Let_def split: option.splits prod.splits)

lemma store_entry_cache_raw:
  "cache (store_entry k c st1) =
     (if length (cache st1) = MAX_DRAW_CACHE_SIZE then tl (cache st1) else cache st1) @ [k]"
  by (cases "cache st1") (auto simp: store_entry_def shift_oldest_def Let_def)

lemma store_entry_cache:
  assumes "cache_inv st1"
  shows "cache (store_entry k c st1) = takeLast MAX_DRAW_CACHE_SIZE (cache st1 @ [k])"
proof -
  have le: "length (cache st1) \<le> MAX_DRAW_CACHE_SIZE" using assms by (simp add: cache_inv_def)
  have pos: "0 < MAX_DRAW_CACHE_SIZE" by (simp add: MAX_DRAW_CACHE_SIZE_def)
  from takeLast_push [OF le pos] show ?thesis by (simp add: store_entry_cache_raw)
qed

lemma store_entry_full:
  assumes inv: "cache_inv st1" and full: "length (cache st1) = MAX_DRAW_CACHE_SIZE"
  shows "store_entry k c st1 =
           st1\<lparr>cache := tl (cache st1) @ [k],
               cacheMap := ((cacheMap st1)(hd (cache st1) := None))(k \<mapsto> c)\<rparr>"
proof -
  from full obtain x xs where xs: "cache st1 = x # xs"
    by (cases "cache st1") (auto simp: MAX_DRAW_CACHE_SIZE_def)
  with inv have "x \<noteq> []" by (auto simp: cache_inv_def)
  with full xs show ?thesis by (simp add: store_entry_def shift_oldest_def Let_def)
qed

lemma store_entry_inv:
  assumes inv: "cache_inv st1" and fresh: "k \<notin> set (cache st1)" and ne: "k \<noteq> []"
  shows "cache_inv (store_entry k c st1)"
proof (cases "length (cache st1) = MAX_DRAW_CACHE_SIZE")
  case False
  with inv fresh ne show ?thesis
    by (auto simp: cache_inv_def store_entry_def Let_def)
next
  case True
  then obtain x xs where xs: "cache st1 = x # xs"
    by (cases "cache st1") (auto simp: MAX_DRAW_CACHE_SIZE_def)
  with inv have x: "x \<noteq> []" "x \<notin> set xs" "distinct xs" "dom (cacheMap st1) = insert x (set xs)"
       "[] \<notin> set xs"
    by (auto simp: cache_inv_def)
  have st: "store_entry k c st1 =
      st1\<lparr>cache := xs @ [k], cacheMap := ((cacheMap st1)(x := None))(k \<mapsto> c)\<rparr>"
    using store_entry_full [OF inv True] xs by simp
  have "dom (((cacheMap st1)(x := None))(k \<mapsto> c)) = insert k (set xs)"
    using x(2,4) by auto
  moreover have "length (xs @ [k]) \<le> MAX_DRAW_CACHE_SIZE" using True xs by simp
  moreover have "k \<notin> set xs" using fresh xs by simp
  ultimately show ?thesis
    using x ne unfolding st by (simp add: cache_inv_def)
qed

lemma initial_inv: "cache_inv initial_state"
  by (simp add: cache_inv_def initial_state_def)

lemma cache_neutralD:
  assumes "cache_neutral cb"
  shows "\<exists>cv st'. cb ctx st = Some (cv, st') \<and> cache st' = cache st \<and> cacheMap st' = cacheMap st"
proof -
  from assms have "case cb ctx st of None \<Rightarrow> False
      | Some (canvas, st') \<Rightarrow> cache st' = cache st \<and> cacheMap st' = cacheMap st"
    unfolding cache_neutral_def by blast
  then show ?thesis by (cases "cb ctx st") auto
qed




lemma cache_neutral_returns: "cache_neutral cb \<Longrightarrow> returns cb"
  unfolding returns_def using cache_neutralD by fastforce





lemma do_call_neutral:
  assumes inv: "cache_inv st" and n: "cache_neutral (call_callback c)"
  shows "\<exists>cv st'. do_call c st = Some (cv, st') \<and> cache_inv st' \<and>
           cache st' = takeLast MAX_DRAW_CACHE_SIZE (cache st @ call_inserts c st) \<and>
           (call_inserts c st = [] \<longrightarrow> cacheMap st' = cacheMap st) \<and>
           (\<forall>k. call_inserts c st = [k] \<and> length (cache st) = MAX_DRAW_CACHE_SIZE \<longrightarrow>
                cache st' = tl (cache st) @ [k] \<and>
                dom (cacheMap st') = insert k (dom (cacheMap st) - {hd (cache st)}))"
proof -
  let ?cb = "call_callback c (Canvas (call_w c) (call_h c) []) st"
  from cache_neutralD [OF n] obtain cv st1 where cb: "?cb = Some (cv, st1)"
      and same: "cache st1 = cache st" "cacheMap st1 = cacheMap st"
    by blast
  from inv same have i1: "cache_inv st1" by (simp add: cache_inv_def)
  have le: "takeLast MAX_DRAW_CACHE_SIZE (cache st) = cache st"
    using inv by (simp add: takeLast_all cache_inv_def)
  show ?thesis
  proof (cases "call_id c")
    case None
    with cb i1 same le show ?thesis
      by (simp add: do_call_def drawFromCache_null call_inserts_def call_key_def)
  next
    case (Some i)
    let ?k = "call_section c @ ''.'' @ i"
    show ?thesis
    proof (cases "cacheMap st ?k")
      case hit: (Some cv')
      with Some inv le show ?thesis
        by (simp add: do_call_def drawFromCache_hit call_inserts_def call_key_def)
    next
      case None
      have d: "do_call c st = Some (cv, store_entry ?k cv st1)"
        using None Some cb by (simp add: do_call_def drawFromCache_miss)
      have ins: "call_inserts c st = [?k]"
        using None Some by (simp add: call_inserts_def call_key_def)
      have fresh: "?k \<notin> set (cache st1)"
        using None inv same by (auto simp: cache_inv_def)
      have i2: "cache_inv (store_entry ?k cv st1)"
        using i1 fresh by (intro store_entry_inv) auto
      have c2: "cache (store_entry ?k cv st1) = takeLast MAX_DRAW_CACHE_SIZE (cache st @ [?k])"
        using store_entry_cache [OF i1] same by simp
      have full: "length (cache st) = MAX_DRAW_CACHE_SIZE \<Longrightarrow>
          cache (store_entry ?k cv st1) = tl (cache st) @ [?k] \<and>
          dom (cacheMap (store_entry ?k cv st1)) = insert ?k (dom (cacheMap st) - {hd (cache st)})"
        using store_entry_full [OF i1, of ?k cv] same by auto
      from d ins i2 c2 full show ?thesis by simp
    qed
  qed
qed


lemma run_snoc:
  "run (cs @ [c]) st =
     (case run cs st of None \<Rightarrow> None | Some st1 \<Rightarrow> map_option snd (do_call c st1))"
  by (induction cs arbitrary: st) (auto split: option.splits)


subsection \<open>Runs of calls\<close>


lemma call_inserts_cases:
  "call_inserts c st = [] \<or> (\<exists>k. call_key c = Some k \<and> cacheMap st k = None \<and> call_inserts c st = [k])"
  by (auto simp: call_inserts_def split: option.splits)











section \<open>The cache-key builder\<close>

lemma getCacheId_font: "getCacheId env (FontObject f) = Some (base_id (FontObject f))"
  by (subst getCacheId.simps) (simp add: base_id_def split: option.splits)

lemma getCacheId_bitmap: "getCacheId env (BitmapObject b) = Some (base_id (BitmapObject b))"
  by (subst getCacheId.simps) (simp add: base_id_def split: option.splits)

text \<open>One unfolding of the recursion on a style.\<close>

lemma getCacheId_style:
  "getCacheId env (StyleObject style) =
     (let id1 = base_id (StyleObject style)
                @ (case styleGetFont env style of None \<Rightarrow> [] | Some font \<Rightarrow> base_id (FontObject font))
      in case style_parent env style of
           None \<Rightarrow> Some id1
         | Some parent \<Rightarrow>
             (case getCacheId env (StyleObject parent) of
                None \<Rightarrow> None
              | Some p \<Rightarrow> Some (id1 @ '','' @ p)))"
proof -
  let ?b = "base_id (StyleObject style)"
  let ?f = "case styleGetFont env style of None \<Rightarrow> [] | Some font \<Rightarrow> base_id (FontObject font)"
  have b: "(case object_modificationTime (StyleObject style) of
              None \<Rightarrow> object_id (StyleObject style)
            | Some t \<Rightarrow> object_id (StyleObject style) @ ''-'' @ decimal t) = ?b"
    by (simp add: base_id_def)
  have font: "(case styleGetFont env style of
                 None \<Rightarrow> Some ?b
               | Some font \<Rightarrow> Option.bind (getCacheId env (FontObject font)) (\<lambda>f. Some (?b @ f)))
              = Some (?b @ ?f)"
    by (cases "styleGetFont env style") (simp_all add: getCacheId_font)
  have unfold: "getCacheId env (StyleObject style) =
      (case inheritFromStyle env style of
         None \<Rightarrow>
           if style \<noteq> getDefaultStyle env
           then Option.bind (getCacheId env (StyleObject (getDefaultStyle env)))
                  (\<lambda>p. Some ((?b @ ?f) @ '','' @ p))
           else Some (?b @ ?f)
       | Some parent \<Rightarrow>
           Option.bind (getCacheId env (StyleObject parent)) (\<lambda>p. Some ((?b @ ?f) @ '','' @ p)))"
    by (subst getCacheId.simps) (simp only: Let_def EezObject.case b font bind.bind_lunit)
  show ?thesis
  proof (cases "inheritFromStyle env style")
    case (Some parent)
    then show ?thesis
      unfolding unfold
      by (cases "getCacheId env (StyleObject parent)") (simp_all add: style_parent_def)
  next
    case None
    show ?thesis
    proof (cases "style = getDefaultStyle env")
      case True
      with None show ?thesis unfolding unfold by (simp add: style_parent_def)
    next
      case False
      with None show ?thesis
        unfolding unfold
        by (cases "getCacheId env (StyleObject (getDefaultStyle env))")
           (simp_all add: style_parent_def)
    qed
  qed
qed

lemma getCacheId_style_returns:
  fixes rank :: "Style \<Rightarrow> nat"
  assumes "\<forall>s p. style_parent env s = Some p \<longrightarrow> rank p < rank s"
  shows "\<exists>r. getCacheId env (StyleObject style) = Some r"
proof (induction "rank style" arbitrary: style rule: less_induct)
  case less
  show ?case
  proof (cases "style_parent env style")
    case None
    then show ?thesis by (subst getCacheId_style) simp
  next
    case (Some parent)
    with assms have "rank parent < rank style" by blast
    from less [OF this] obtain p where "getCacheId env (StyleObject parent) = Some p" by blast
    with Some show ?thesis by (subst getCacheId_style) simp
  qed
qed

text \<open>
  Claim C2. On a style inheritance without cycles (a rank decreases from a style to the
  style it falls back to) \<^verbatim>\<open>getCacheId\<close> returns for every entity: the unique identifier
  followed by a dash and the modification timestamp when there is one, the bare identifier
  otherwise; for a style this is followed by the cache id of its resolved font, if one
  resolves, and then by a comma and the cache id of the style found under its
  \<^verbatim>\<open>inheritFrom\<close> name or, when none is found and the style is not the global default
  style, a comma and the cache id of the default style.
\<close>

theorem getCacheId_composition:
  fixes rank :: "Style \<Rightarrow> nat"
  assumes "\<forall>s p. style_parent env s = Some p \<longrightarrow> rank p < rank s"
  shows "getCacheId env obj =
           Some ((case object_modificationTime obj of
                    Some t \<Rightarrow> object_id obj @ ''-'' @ decimal t
                  | None \<Rightarrow> object_id obj)
                 @ (case obj of
                      StyleObject style \<Rightarrow>
                        (case styleGetFont env style of
                           Some font \<Rightarrow> the (getCacheId env (FontObject font))
                         | None \<Rightarrow> [])
                        @ (case inheritFromStyle env style of
                             Some parent \<Rightarrow> '','' @ the (getCacheId env (StyleObject parent))
                           | None \<Rightarrow>
                               if style \<noteq> getDefaultStyle env
                               then '','' @ the (getCacheId env (StyleObject (getDefaultStyle env)))
                               else [])
                    | FontObject f \<Rightarrow> []
                    | BitmapObject b \<Rightarrow> []))"
proof (cases obj)
  case (StyleObject style)
  let ?b = "base_id (StyleObject style)"
  let ?f = "case styleGetFont env style of None \<Rightarrow> [] | Some font \<Rightarrow> base_id (FontObject font)"
  have b: "(case object_modificationTime (StyleObject style) of
              Some t \<Rightarrow> object_id (StyleObject style) @ ''-'' @ decimal t
            | None \<Rightarrow> object_id (StyleObject style)) = ?b"
    by (simp add: base_id_def split: option.splits)
  have f: "(case styleGetFont env style of
              Some font \<Rightarrow> the (getCacheId env (FontObject font))
            | None \<Rightarrow> []) = ?f"
    by (cases "styleGetFont env style") (simp_all add: getCacheId_font)
  have rest: "getCacheId env (StyleObject style) =
      Some ((?b @ ?f) @ (case inheritFromStyle env style of
                 Some parent \<Rightarrow> '','' @ the (getCacheId env (StyleObject parent))
               | None \<Rightarrow>
                   if style \<noteq> getDefaultStyle env
                   then '','' @ the (getCacheId env (StyleObject (getDefaultStyle env)))
                   else []))"
  proof (cases "style_parent env style")
    case None
    then have i: "inheritFromStyle env style = None" and d: "style = getDefaultStyle env"
      by (auto simp: style_parent_def split: option.splits if_splits)
    have "getCacheId env (StyleObject style) = Some (?b @ ?f)"
      using None by (simp add: getCacheId_style [of env style])
    moreover have "(case inheritFromStyle env style of
                 Some parent \<Rightarrow> '','' @ the (getCacheId env (StyleObject parent))
               | None \<Rightarrow>
                   if style \<noteq> getDefaultStyle env
                   then '','' @ the (getCacheId env (StyleObject (getDefaultStyle env)))
                   else []) = []"
      unfolding i using d by simp
    ultimately show ?thesis by simp
  next
    case (Some parent)
    from getCacheId_style_returns [OF assms] obtain p where
      p: "getCacheId env (StyleObject parent) = Some p" by blast
    have l: "getCacheId env (StyleObject style) = Some ((?b @ ?f) @ '','' @ p)"
      using Some p by (simp add: getCacheId_style [of env style])
    have "(case inheritFromStyle env style of
                 Some parent \<Rightarrow> '','' @ the (getCacheId env (StyleObject parent))
               | None \<Rightarrow>
                   if style \<noteq> getDefaultStyle env
                   then '','' @ the (getCacheId env (StyleObject (getDefaultStyle env)))
                   else []) = '','' @ p"
    proof (cases "inheritFromStyle env style")
      case None
      with Some have "style \<noteq> getDefaultStyle env" "parent = getDefaultStyle env"
        by (auto simp: style_parent_def split: if_splits)
      with None p show ?thesis by simp
    next
      case (Some q)
      with \<open>style_parent env style = Some parent\<close> have "q = parent"
        by (simp add: style_parent_def)
      with Some p show ?thesis by simp
    qed
    with l show ?thesis by simp
  qed
  show ?thesis
    unfolding StyleObject EezObject.case b f using rest by simp
next
  case (FontObject f)
  then show ?thesis by (simp add: getCacheId_font base_id_def split: option.splits)
next
  case (BitmapObject b)
  then show ?thesis by (simp add: getCacheId_bitmap base_id_def split: option.splits)
qed

lemma example_env_simps:
  "findStyle example_env n = (if n = ''base'' then Some example_base_style else None)"
  "findFont example_env n = (if n = ''f8'' then Some example_font else None)"
  "getDefaultStyle example_env = example_default_style"
  "getStyleProperty example_env s = example_properties"
  "measureStr example_env t f m = 6 * int (length t)"
  "data_get example_env n = ''50''"
  "data_getMin example_env n = 0"
  "data_getMax example_env n = 20"
  "JSON_parse example_env t = (if CHR 0x5C \<in> set t then Inl SyntaxError else Inr (butlast (tl t)))"
  by (simp_all add: example_env_def)

lemma example_styles_distinct:
  "example_base_style \<noteq> example_default_style"
  "example_title_style \<noteq> example_default_style"
  "example_title_style \<noteq> example_base_style"
  by (simp_all add: example_base_style_def example_default_style_def example_title_style_def)

lemma example_inheritFromStyle:
  "inheritFromStyle example_env example_default_style = None"
  "inheritFromStyle example_env example_base_style = None"
  "inheritFromStyle example_env example_title_style = Some example_base_style"
  by (simp_all add: inheritFromStyle_def example_env_simps truthy_def
      example_base_style_def example_default_style_def example_title_style_def)

lemma example_styleGetFont: "styleGetFont example_env s = Some example_font"
  by (simp add: styleGetFont_def example_env_simps example_properties_def truthy_def)

lemma example_rank_ok:
  "\<forall>s p. style_parent example_env s = Some p \<longrightarrow> example_rank p < example_rank s"
proof (intro allI impI)
  fix s p assume sp: "style_parent example_env s = Some p"
  show "example_rank p < example_rank s"
  proof (cases "inheritFromStyle example_env s")
    case None
    with sp have "s \<noteq> example_default_style" "p = example_default_style"
      by (auto simp: style_parent_def example_env_simps split: if_splits)
    then show ?thesis by (simp add: example_rank_def)
  next
    case (Some q)
    with sp have pq: "p = q" by (simp add: style_parent_def)
    from Some have t: "truthy (inheritFrom s)"
      and f: "findStyle example_env (the (inheritFrom s)) = Some q"
      by (simp_all add: inheritFromStyle_def split: if_splits)
    from t obtain n where n: "inheritFrom s = Some n"
      by (cases "inheritFrom s") (simp_all add: truthy_def)
    from f n have "n = ''base''" and q: "q = example_base_style"
      by (simp_all add: example_env_simps split: if_splits)
    with n have i: "inheritFrom s = Some ''base''" by simp
    then have "s \<noteq> example_default_style" by (auto simp: example_default_style_def)
    with i have "example_rank s = 2" by (simp add: example_rank_def)
    moreover have "example_rank example_base_style = 1"
      by (simp add: example_rank_def example_base_style_def example_default_style_def)
    ultimately show ?thesis using pq q by simp
  qed
qed

lemma example_decimals: "decimal 7 = ''7''" "decimal 42 = ''42''"
  by (simp_all add: decimal.simps [of 7] decimal.simps [of 42] decimal.simps [of 4] digit_char_def)

lemma example_base_ids:
  "base_id (FontObject example_font) = ''F''"
  "base_id (StyleObject example_default_style) = ''D''"
  "base_id (StyleObject example_base_style) = ''B-7''"
  "base_id (StyleObject example_title_style) = ''T-42''"
  by (simp_all add: base_id_def object_id_def object_modificationTime_def example_decimals
      example_font_def example_default_style_def example_base_style_def example_title_style_def)

theorem getCacheId_composition_witness:
  "getCacheId example_env (StyleObject example_title_style) = Some ''T-42F,B-7F,DF''
   \<and> getCacheId example_env (StyleObject example_default_style) = Some ''DF''
   \<and> getCacheId example_env (FontObject example_font) = Some ''F''"
proof -
  note c = getCacheId_composition [OF example_rank_ok, folded base_id_def]
  have 1: "getCacheId example_env (FontObject example_font) = Some ''F''"
    by (subst c) (simp add: example_base_ids)
  have 2: "getCacheId example_env (StyleObject example_default_style) = Some ''DF''"
    by (subst c)
       (simp add: 1 example_base_ids example_styleGetFont example_inheritFromStyle
          example_env_simps)
  have 3: "getCacheId example_env (StyleObject example_base_style) = Some ''B-7F,DF''"
    by (subst c)
       (simp add: 1 2 example_base_ids example_styleGetFont example_inheritFromStyle
          example_env_simps example_styles_distinct)
  have 4: "getCacheId example_env (StyleObject example_title_style) = Some ''T-42F,B-7F,DF''"
    by (subst c)
       (simp add: 1 3 example_base_ids example_styleGetFont example_inheritFromStyle
          example_env_simps example_styles_distinct)
  from 1 2 4 show ?thesis by simp
qed


section \<open>The primitive renderers\<close>

lemma border_step_eq:
  "border_step env style w h =
     (if or_zero (styleGetBorderSize env style) > 0
      then ([SetColor (p_borderColor (getStyleProperty env style)),
             FillRect 0 0 (w - 1) (h - 1) (Some (or_zero (styleGetBorderRadius env style)))],
            or_zero (styleGetBorderSize env style), or_zero (styleGetBorderSize env style),
            w - 1 - or_zero (styleGetBorderSize env style),
            h - 1 - or_zero (styleGetBorderSize env style),
            max (or_zero (styleGetBorderRadius env style) - or_zero (styleGetBorderSize env style)) 0)
      else ([], 0, 0, w - 1, h - 1, or_zero (styleGetBorderRadius env style)))"
  by (simp add: border_step_def Let_def)

lemma paint_fresh: "paint os (Canvas w h []) = Canvas w h os"
  by (simp add: paint_def)


lemma unescape_ok:
  "JSON_parse env ([CHR 0x22] @ txt @ [CHR 0x22]) = Inr t \<Longrightarrow> unescape env txt st = (t, st)"
  by (simp add: unescape_def)

lemma unescape_cache:
  "cache (snd (unescape env txt st)) = cache st \<and> cacheMap (snd (unescape env txt st)) = cacheMap st"
  by (simp add: unescape_def split: sum.splits)

text \<open>The shape of what the four callbacks return.\<close>

lemma drawText_callback_None:
  assumes "border_step env style w h = (bops, x1, y1, x2, y2, r)"
    and "styleGetFont env style = None"
  shows "drawText_callback env txt w h style inverse' ov ctx st =
     Some (paint (bops @ [SetColor (if inverse' then p_color (getStyleProperty env style)
                                    else (case ov of Some c \<Rightarrow> c
                                          | None \<Rightarrow> p_backgroundColor (getStyleProperty env style))),
                         FillRect x1 y1 x2 y2 (Some r)]) ctx, st)"
  using assms by (simp add: drawText_callback_def Let_def)

lemma drawText_callback_Some:
  assumes "border_step env style w h = (bops, x1, y1, x2, y2, r)"
    and "styleGetFont env style = Some font"
    and "unescape env txt st = (txt', st')"
  shows "drawText_callback env txt w h style inverse' ov ctx st =
     Some (paint (bops @ [SetColor (if inverse' then p_color (getStyleProperty env style)
                                    else (case ov of Some c \<Rightarrow> c
                                          | None \<Rightarrow> p_backgroundColor (getStyleProperty env style))),
                         FillRect x1 y1 x2 y2 (Some r)]
                   @ text_colors inverse' (p_color (getStyleProperty env style))
                       (case ov of Some c \<Rightarrow> c
                        | None \<Rightarrow> p_backgroundColor (getStyleProperty env style))
                   @ [DrawStr txt'
                        (if styleIsHorzAlignLeft env style
                         then x1 + p_paddingHorizontal (getStyleProperty env style)
                         else if styleIsHorzAlignRight env style
                         then x2 - p_paddingHorizontal (getStyleProperty env style)
                              - measureStr env txt' font (x2 - x1 + 1)
                         else Math_floor (of_int x1
                                + of_int (x2 - x1 + 1 - measureStr env txt' font (x2 - x1 + 1)) / 2))
                        (if styleIsVertAlignTop env style
                         then y1 + p_paddingVertical (getStyleProperty env style)
                         else if styleIsVertAlignBottom env style
                         then y2 - p_paddingVertical (getStyleProperty env style) - font_height font
                         else Math_floor (of_int y1 + of_int (y2 - y1 + 1 - font_height font) / 2))
                        font]) ctx, st')"
  using assms by (simp add: drawText_callback_def Let_def)

lemma drawMultilineText_callback_None:
  assumes "border_step env style w h = (bops, x1, y1, x2, y2, r)"
    and "styleGetFont env style = None"
  shows "drawMultilineText_callback env txt w h style inverse' ctx st =
     Some (paint (bops @ [SetColor (if inverse' then p_color (getStyleProperty env style)
                                    else p_backgroundColor (getStyleProperty env style)),
                         FillRect x1 y1 x2 y2 (Some r)]) ctx, st)"
  using assms by (simp add: drawMultilineText_callback_def Let_def)

lemma drawMultilineText_callback_Some:
  assumes "border_step env style w h = (bops, x1, y1, x2, y2, r)"
    and "styleGetFont env style = Some font"
    and "unescape env txt st = (txt', st')"
  shows "drawMultilineText_callback env txt w h style inverse' ctx st =
     (case multiline_loop (measureStr env) font txt'
             (text_colors inverse' (p_color (getStyleProperty env style))
                (p_backgroundColor (getStyleProperty env style)))
             (x1 + p_paddingHorizontal (getStyleProperty env style))
             (x2 - p_paddingHorizontal (getStyleProperty env style))
             (y2 - p_paddingVertical (getStyleProperty env style))
             (Math_floor (9 / 10 * of_int (font_height font)))
             (case find (\<lambda>glyph. encoding glyph = 32) (font_glyphs font) of
                None \<Rightarrow> 0 | Some glyph \<Rightarrow> dx glyph)
             (0, x1 + p_paddingHorizontal (getStyleProperty env style),
              y1 + p_paddingVertical (getStyleProperty env style)) [] of
        None \<Rightarrow> None
      | Some word_ops \<Rightarrow>
          Some (paint (bops @ [SetColor (if inverse' then p_color (getStyleProperty env style)
                                         else p_backgroundColor (getStyleProperty env style)),
                              FillRect x1 y1 x2 y2 (Some r)] @ word_ops) ctx, st'))"
  using assms by (simp add: drawMultilineText_callback_def Let_def)

lemma drawRectangle_callback_eq:
  assumes "border_step env style w h = (bops, x1, y1, x2, y2, r)"
  shows "drawRectangle_callback env w h style inverse' ctx st =
     Some (paint (bops @ [SetColor (if inverse' then p_backgroundColor (getStyleProperty env style)
                                    else p_color (getStyleProperty env style)),
                         FillRect x1 y1 x2 y2 (Some r)]) ctx, st)"
  using assms by (simp add: drawRectangle_callback_def)

lemma drawBitmap_callback_eq:
  assumes "border_step env style w h = (bops, x1, y1, x2, y2, r)"
  shows "drawBitmap_callback env bitmap img w h style inverse' ctx st =
     Some (paint (bops @ [SetColor (if inverse' then p_color (getStyleProperty env style)
                                    else p_backgroundColor (getStyleProperty env style)),
                         FillRect x1 y1 x2 y2 (Some r)]
                   @ [SetColor (if inverse' then p_color (getStyleProperty env style)
                                else p_backgroundColor (getStyleProperty env style)),
                      FillRect x1 y1 x2 y2 None]
                   @ text_colors inverse' (p_color (getStyleProperty env style))
                       (p_backgroundColor (getStyleProperty env style))
                   @ [SetColor (if truthy (bitmap_backgroundColor bitmap)
                                then the (bitmap_backgroundColor bitmap) else ''transparent''),
                      FillRect
                        (if styleIsHorzAlignLeft env style
                         then x1 + p_paddingHorizontal (getStyleProperty env style)
                         else if styleIsHorzAlignRight env style
                         then x2 - p_paddingHorizontal (getStyleProperty env style) - image_width img
                         else Math_floor (of_int x1 + of_int (x2 - x1 - image_width img) / 2))
                        (if styleIsVertAlignTop env style
                         then y1 + p_paddingVertical (getStyleProperty env style)
                         else if styleIsVertAlignBottom env style
                         then y2 - p_paddingVertical (getStyleProperty env style) - image_height img
                         else Math_floor (of_int y1 + of_int (y2 - y1 - image_height img) / 2))
                        ((if styleIsHorzAlignLeft env style
                          then x1 + p_paddingHorizontal (getStyleProperty env style)
                          else if styleIsHorzAlignRight env style
                          then x2 - p_paddingHorizontal (getStyleProperty env style) - image_width img
                          else Math_floor (of_int x1 + of_int (x2 - x1 - image_width img) / 2))
                         + image_width img - 1)
                        ((if styleIsVertAlignTop env style
                          then y1 + p_paddingVertical (getStyleProperty env style)
                          else if styleIsVertAlignBottom env style
                          then y2 - p_paddingVertical (getStyleProperty env style) - image_height img
                          else Math_floor (of_int y1 + of_int (y2 - y1 - image_height img) / 2))
                         + image_height img - 1)
                        None,
                      DrawBitmap img
                        (if styleIsHorzAlignLeft env style
                         then x1 + p_paddingHorizontal (getStyleProperty env style)
                         else if styleIsHorzAlignRight env style
                         then x2 - p_paddingHorizontal (getStyleProperty env style) - image_width img
                         else Math_floor (of_int x1 + of_int (x2 - x1 - image_width img) / 2))
                        (if styleIsVertAlignTop env style
                         then y1 + p_paddingVertical (getStyleProperty env style)
                         else if styleIsVertAlignBottom env style
                         then y2 - p_paddingVertical (getStyleProperty env style) - image_height img
                         else Math_floor (of_int y1 + of_int (y2 - y1 - image_height img) / 2))
                        (image_width img) (image_height img)]) ctx, st)"
  using assms by (simp add: drawBitmap_callback_def Let_def)


subsection \<open>Text that does not unescape\<close>







subsection \<open>The fill of the inset rectangle\<close>







subsection \<open>Calls with the key null\<close>

lemma drawText_callback_neutral: "cache_neutral (drawText_callback env txt w h style inverse' ov)"
  unfolding cache_neutral_def
proof (intro allI)
  fix ctx st
  obtain bops x1 y1 x2 y2 r where bs: "border_step env style w h = (bops, x1, y1, x2, y2, r)"
    by (cases "border_step env style w h") auto
  obtain txt' st1 where u: "unescape env txt st = (txt', st1)" by (cases "unescape env txt st") auto
  from unescape_cache [of env "txt" st] u have same: "cache st1 = cache st" "cacheMap st1 = cacheMap st"
    by simp_all
  show "case drawText_callback env txt w h style inverse' ov ctx st of
          None \<Rightarrow> False
        | Some (canvas, st') \<Rightarrow> cache st' = cache st \<and> cacheMap st' = cacheMap st"
  proof (cases "styleGetFont env style")
    case None
    show ?thesis unfolding drawText_callback_None [OF bs None] by simp
  next
    case (Some font)
    show ?thesis unfolding drawText_callback_Some [OF bs Some u] using same by simp
  qed
qed

lemma drawRectangle_callback_neutral: "cache_neutral (drawRectangle_callback env w h style inverse')"
  unfolding cache_neutral_def
proof (intro allI)
  fix ctx st
  obtain bops x1 y1 x2 y2 r where bs: "border_step env style w h = (bops, x1, y1, x2, y2, r)"
    by (cases "border_step env style w h") auto
  show "case drawRectangle_callback env w h style inverse' ctx st of
          None \<Rightarrow> False
        | Some (canvas, st') \<Rightarrow> cache st' = cache st \<and> cacheMap st' = cacheMap st"
    unfolding drawRectangle_callback_eq [OF bs] by simp
qed

lemma drawBitmap_callback_neutral:
  "cache_neutral (drawBitmap_callback env bitmap img w h style inverse')"
  unfolding cache_neutral_def
proof (intro allI)
  fix ctx st
  obtain bops x1 y1 x2 y2 r where bs: "border_step env style w h = (bops, x1, y1, x2, y2, r)"
    by (cases "border_step env style w h") auto
  show "case drawBitmap_callback env bitmap img w h style inverse' ctx st of
          None \<Rightarrow> False
        | Some (canvas, st') \<Rightarrow> cache st' = cache st \<and> cacheMap st' = cacheMap st"
    unfolding drawBitmap_callback_eq [OF bs] by simp
qed

lemma drawScaleWidget_callback_neutral: "cache_neutral (drawScaleWidget_callback env scaleWidget rect)"
  unfolding cache_neutral_def by (simp add: drawScaleWidget_callback_def Let_def)

lemma drawText_as_call:
  "getCacheId env (StyleObject style) = Some cid \<Longrightarrow>
   drawText env txt w h style inverse' ov st
     = do_call (drawText_call env cid txt w h style inverse' ov) st"
  by (simp add: drawText_def do_call_def drawText_call_def)

lemma drawText_call_neutral:
  "cache_neutral (call_callback (drawText_call env cid txt w h style inverse' ov))"
  by (simp add: drawText_call_def drawText_callback_neutral)

lemma example_font_height: "font_height example_font = 10"
  by (simp add: example_font_def)

lemma example_default_cacheId:
  "getCacheId example_env (StyleObject example_default_style) = Some ''DF''"
  by (subst getCacheId_style)
     (simp add: example_base_ids example_styleGetFont style_parent_def example_inheritFromStyle
        example_env_simps)

lemma decimal_numeral:
  "decimal (numeral k) =
     (if (10::nat) \<le> numeral k
      then decimal (numeral k div 10) @ [digit_char (numeral k mod 10)]
      else [digit_char (numeral k)])"
  by (rule decimal.simps)

lemma decimal_small: "decimal 0 = ''0''" "decimal (Suc 0) = ''1''" "decimal 1 = ''1''"
  by (simp_all add: decimal.simps [of 0] decimal.simps [of "Suc 0"] decimal.simps [of 1]
      digit_char_def)

lemma number_to_string_examples:
  "number_to_string 10 = ''10''" "number_to_string 20 = ''20''" "number_to_string 80 = ''80''"
  by (simp_all add: number_to_string_def decimal_numeral decimal_small digit_char_def)

text \<open>
  Claim C3 as stated fails. \<^verbatim>\<open>drawUpDownWidget\<close> calls \<^verbatim>\<open>drawFromCache\<close> with the key
  \<^verbatim>\<open>null\<close>; its callback draws the two buttons and the text with \<^verbatim>\<open>drawText\<close>, so the call
  on the empty cache leaves three entries in it.
\<close>

theorem null_key_call_grows_cache:
  "cache initial_state = []
   \<and> map_option (cache \<circ> snd)
       (drawFromCache ''drawUpDownWidget'' None 100 20
          (drawUpDownWidget_callback example_env example_upDown \<lparr>rect_width = 100, rect_height = 20\<rparr>)
          initial_state)
     = Some [''drawText.DF.<.10.20.false'', ''drawText.DF.50.80.20.false'',
             ''drawText.DF.>.10.20.false'']"
proof -
  let ?c1 = "drawText_call example_env ''DF'' ''<'' 10 20 example_default_style False None"
  let ?c2 = "drawText_call example_env ''DF'' ''50'' 80 20 example_default_style False None"
  let ?c3 = "drawText_call example_env ''DF'' ''>'' 10 20 example_default_style False None"
  have keys: "call_key ?c1 = Some ''drawText.DF.<.10.20.false''"
    "call_key ?c2 = Some ''drawText.DF.50.80.20.false''"
    "call_key ?c3 = Some ''drawText.DF.>.10.20.false''"
    by (simp_all add: call_key_def drawText_call_def number_to_string_examples boolean_to_string_def)
  have n: "\<forall>c \<in> set [?c1, ?c2, ?c3]. cache_neutral (call_callback c)"
    by (simp add: drawText_call_neutral)
  from do_call_neutral [OF initial_inv drawText_call_neutral [of example_env "''DF''" "''<''" 10 20 example_default_style False None]]
  obtain cv1 st1 where d1: "do_call ?c1 initial_state = Some (cv1, st1)" and i1: "cache_inv st1"
    and c1: "cache st1 = takeLast MAX_DRAW_CACHE_SIZE (cache initial_state @ call_inserts ?c1 initial_state)"
    by blast
  from do_call_neutral [OF i1 drawText_call_neutral [of example_env "''DF''" "''50''" 80 20 example_default_style False None]]
  obtain cv2 st2 where d2: "do_call ?c2 st1 = Some (cv2, st2)" and i2: "cache_inv st2"
    and c2: "cache st2 = takeLast MAX_DRAW_CACHE_SIZE (cache st1 @ call_inserts ?c2 st1)"
    by blast
  from do_call_neutral [OF i2 drawText_call_neutral [of example_env "''DF''" "''>''" 10 20 example_default_style False None]]
  obtain cv3 st3 where d3: "do_call ?c3 st2 = Some (cv3, st3)" and i3: "cache_inv st3"
    and c3: "cache st3 = takeLast MAX_DRAW_CACHE_SIZE (cache st2 @ call_inserts ?c3 st2)"
    by blast
  have tl1: "takeLast MAX_DRAW_CACHE_SIZE [a] = [a]" for a :: string
    by (rule takeLast_all) (simp add: MAX_DRAW_CACHE_SIZE_def)
  have tl2: "takeLast MAX_DRAW_CACHE_SIZE [a, b] = [a, b]" for a b :: string
    by (rule takeLast_all) (simp add: MAX_DRAW_CACHE_SIZE_def)
  have tl3: "takeLast MAX_DRAW_CACHE_SIZE [a, b, c] = [a, b, c]" for a b c :: string
    by (rule takeLast_all) (simp add: MAX_DRAW_CACHE_SIZE_def)
  have e0: "cache initial_state = []" "cacheMap initial_state k = None" for k
    by (simp_all add: initial_state_def)
  have ins1: "call_inserts ?c1 initial_state = [''drawText.DF.<.10.20.false'']"
    unfolding call_inserts_def keys by (simp add: e0)
  have s1: "cache st1 = [''drawText.DF.<.10.20.false'']"
    unfolding c1 ins1 e0 by (simp add: tl1)
  have "''drawText.DF.50.80.20.false'' \<notin> set (cache st1)" unfolding s1 by simp
  then have m2: "cacheMap st1 ''drawText.DF.50.80.20.false'' = None"
    using i1 unfolding cache_inv_def by blast
  have ins2: "call_inserts ?c2 st1 = [''drawText.DF.50.80.20.false'']"
    unfolding call_inserts_def keys by (simp add: m2)
  have s2: "cache st2 = [''drawText.DF.<.10.20.false'', ''drawText.DF.50.80.20.false'']"
    unfolding c2 ins2 s1 by (simp add: tl2)
  have "''drawText.DF.>.10.20.false'' \<notin> set (cache st2)" unfolding s2 by simp
  then have m3: "cacheMap st2 ''drawText.DF.>.10.20.false'' = None"
    using i2 unfolding cache_inv_def by blast
  have ins3: "call_inserts ?c3 st2 = [''drawText.DF.>.10.20.false'']"
    unfolding call_inserts_def keys by (simp add: m3)
  have s3: "cache st3 = [''drawText.DF.<.10.20.false'', ''drawText.DF.50.80.20.false'',
             ''drawText.DF.>.10.20.false'']"
    unfolding c3 ins3 s2 by (simp add: tl3)
  have "drawUpDownWidget_callback example_env example_upDown \<lparr>rect_width = 100, rect_height = 20\<rparr>
          (Canvas 100 20 []) initial_state
        = Some (paint [DrawImage cv3 90 0]
                  (paint [DrawImage cv2 10 0] (paint [DrawImage cv1 0 0] (Canvas 100 20 []))), st3)"
    by (simp add: drawUpDownWidget_callback_def example_styleGetFont example_upDown_def
        example_font_height or_else_def truthy_def example_env_simps
        drawText_as_call [OF example_default_cacheId] d1 d2 d3)
  with s3 show ?thesis by (simp add: drawFromCache_null initial_state_def)
qed

text \<open>
  Claim C3, amended. A call with the key \<^verbatim>\<open>null\<close> runs the callback on a new blank canvas
  and returns what the callback returns: nothing is looked up and the call itself stores
  nothing, so the state after the call is the state the callback left. The list and the
  map of the cache are unchanged when the callback only paints (scale, graphs); the
  entries a callback inserts by drawing text through the cache (up/down, bar graph) stay.
  Two calls in a row with different painting return their own painting each.
\<close>

theorem null_key_bypass:
  "drawFromCache section None w h callback st = callback (Canvas w h []) st
   \<and> (cache_neutral callback \<longrightarrow>
        (\<exists>canvas st'. drawFromCache section None w h callback st = Some (canvas, st')
           \<and> cache st' = cache st \<and> cacheMap st' = cacheMap st))
   \<and> drawFromCache section None w h (\<lambda>ctx s. Some (paint ops1 ctx, s)) st
        = Some (Canvas w h ops1, st)
   \<and> drawFromCache section None w h (\<lambda>ctx s. Some (paint ops2 ctx, s)) st
        = Some (Canvas w h ops2, st)"
proof (intro conjI impI)
  show "drawFromCache section None w h callback st = callback (Canvas w h []) st"
    by (rule drawFromCache_null)
next
  assume "cache_neutral callback"
  from cache_neutralD [OF this, of "Canvas w h []" st]
  show "\<exists>canvas st'. drawFromCache section None w h callback st = Some (canvas, st')
           \<and> cache st' = cache st \<and> cacheMap st' = cacheMap st"
    by (simp add: drawFromCache_null)
next
  show "drawFromCache section None w h (\<lambda>ctx s. Some (paint ops1 ctx, s)) st
        = Some (Canvas w h ops1, st)"
    by (simp add: drawFromCache_null paint_fresh)
next
  show "drawFromCache section None w h (\<lambda>ctx s. Some (paint ops2 ctx, s)) st
        = Some (Canvas w h ops2, st)"
    by (simp add: drawFromCache_null paint_fresh)
qed

theorem null_key_bypass_witness:
  "cache_neutral (drawScaleWidget_callback example_env
      \<lparr>scale_data = None, scale_style = example_default_style, needlePosition = ''left'',
       needleWidth = 3, needleHeight = 5\<rparr> \<lparr>rect_width = 20, rect_height = 40\<rparr>)
   \<and> (\<exists>canvas st'.
        drawFromCache ''drawScaleWidget'' None 20 40
          (drawScaleWidget_callback example_env
             \<lparr>scale_data = None, scale_style = example_default_style, needlePosition = ''left'',
              needleWidth = 3, needleHeight = 5\<rparr> \<lparr>rect_width = 20, rect_height = 40\<rparr>)
          initial_state = Some (canvas, st')
        \<and> cache st' = [] \<and> cacheMap st' = Map.empty)"
proof -
  let ?cb = "drawScaleWidget_callback example_env
         \<lparr>scale_data = None, scale_style = example_default_style, needlePosition = ''left'',
          needleWidth = 3, needleHeight = 5\<rparr> \<lparr>rect_width = 20, rect_height = 40\<rparr>"
  have n: "cache_neutral ?cb" by (rule drawScaleWidget_callback_neutral)
  from null_key_bypass [of "''drawScaleWidget''" 20 40 ?cb initial_state] n
  obtain canvas st' where
    r: "drawFromCache ''drawScaleWidget'' None 20 40 ?cb initial_state = Some (canvas, st')" and
    c: "cache st' = cache initial_state" "cacheMap st' = cacheMap initial_state"
    by blast
  from c have "cache st' = []" "cacheMap st' = Map.empty" by (simp_all add: initial_state_def)
  with r n show ?thesis by blast
qed


section \<open>The bar graph and the scale\<close>

lemma clamp_pos_range: "0 \<le> d \<Longrightarrow> 0 \<le> clamp_pos d p \<and> clamp_pos d p \<le> d"
  by (simp add: clamp_pos_def Let_def)

text \<open>The part of claim C7 that holds: the position lies in \<open>[0, d]\<close> whenever it is a number.\<close>

lemma calcPos_range:
  "0 \<le> d \<Longrightarrow> calcPos d min' max' valu = Some pos \<Longrightarrow> 0 \<le> pos \<and> pos \<le> d"
  by (auto simp: calcPos_def clamp_pos_range split: if_splits)

lemma floor_int_plus_half: "\<lfloor>rat_of_int a + rat_of_int b / 2\<rfloor> = a + b div 2"
proof -
  have "\<lfloor>rat_of_int b / 2\<rfloor> = b div 2"
    using floor_divide_of_int_eq [of b 2, where ?'a = rat] by simp
  then show ?thesis by simp
qed

lemma Math_round_of_int: "Math_round (rat_of_int a) = a"
  unfolding Math_round_def using floor_int_plus_half [of a 1] by simp

lemma calcPos_example_150: "0 \<le> d \<Longrightarrow> calcPos d 0 100 150 = Some d"
proof -
  assume d: "0 \<le> d"
  have "3 * rat_of_int d / 2 + 1 / 2 = rat_of_int d + rat_of_int (d + 1) / 2"
    by (simp add: field_simps)
  then have r: "Math_round (3 * rat_of_int d / 2) = d + (d + 1) div 2"
    unfolding Math_round_def by (simp only: floor_int_plus_half)
  have h: "0 \<le> (d + 1) div 2" using d by simp
  have "clamp_pos d (d + (d + 1) div 2) = d"
  proof -
    have "\<not> d + (d + 1) div 2 < 0" using d h by linarith
    moreover have "d + (d + 1) div 2 > d \<or> d + (d + 1) div 2 = d" using h by linarith
    ultimately show ?thesis unfolding clamp_pos_def Let_def by auto
  qed
  then show ?thesis by (simp add: calcPos_def r)
qed

text \<open>
  Claim C7 on the code. With \<^verbatim>\<open>min = 50\<close>, \<^verbatim>\<open>max = 100\<close> and the value \<open>50\<close>, the minimum of
  the interval, on an axis of length \<open>100\<close>, the normalized position is \<open>0\<close>; the code
  computes \<^verbatim>\<open>Math.round(50 * 100 / (100 - 50)) = 100\<close>, the full bar: \<^verbatim>\<open>min\<close> is never
  subtracted from the value.
\<close>

theorem calcPos_ignores_min:
  "calcPos 100 50 100 50 = Some 100 \<and> normalized_pos 100 50 100 50 = 0"
proof -
  have a: "(50 * rat_of_int 100) / (100 - 50) = rat_of_int 100" by simp
  have b: "(50 - 50) / (100 - 50) * rat_of_int 100 = rat_of_int 0" by simp
  have "calcPos 100 50 100 50 = Some (clamp_pos 100 (Math_round ((50 * rat_of_int 100) / (100 - 50))))"
    by (simp add: calcPos_def)
  then have 1: "calcPos 100 50 100 50 = Some 100"
    unfolding a Math_round_of_int by (simp add: clamp_pos_def)
  have 2: "normalized_pos 100 50 100 50 = 0"
    unfolding normalized_pos_def b Math_round_of_int by (simp add: clamp_pos_def)
  from 1 2 show ?thesis by simp
qed


subsection \<open>The scale\<close>

text \<open>
  The part of claim C6 that holds: the scale is vertical exactly for the needle positions
  left and right, and flipped exactly for left and top. With the thumb position \<open>y_value\<close>
  given, the full-length thumb line is drawn on the row \<open>y_i = y_value\<close>.
\<close>

lemma drawScale_thumb_centre:
  "0 \<le> needleSize \<Longrightarrow>
   drawScale_thumb env style vertical flip x2 l2 needleSize y_value y_value y =
     [SetColor (p_color (getStyleProperty env style)),
      if vertical then DrawHLine (of_int x2) (of_int y) (of_int l2)
      else DrawVLine (of_int y) (of_int x2) (of_int l2)]"
  by (simp add: drawScale_thumb_def Math_floor_def)

text \<open>
  The callback never reads the current value of the bound data item: it passes
  \<^verbatim>\<open>Math.round(0 * f)\<close>, that is \<open>0\<close>, as \<^verbatim>\<open>y_value\<close>.
\<close>

lemma drawScaleWidget_callback_value:
  "drawScaleWidget_callback (env\<lparr>data_get := g\<rparr>) scaleWidget rect
     = drawScaleWidget_callback env scaleWidget rect"
  by (rule ext, rule ext)
     (simp add: drawScaleWidget_callback_def drawScale_def drawScale_tick_def drawScale_thumb_def
        Let_def cong: if_cong)

text \<open>
  Claim C6 on the code. The scale of the example is bound to a data item with the range
  \<open>0\<close> to \<open>20\<close> and the current value \<open>10\<close>; one unit is one pixel and the row of the value
  \<open>0\<close> is \<open>21\<close>, so the thumb belongs on row \<open>11\<close>. The lines painted in the thumb colour
  are centred on row \<open>21\<close>, the value \<open>0\<close>, and row \<open>11\<close> of the needle column is erased with
  the background colour.
\<close>

theorem drawScaleWidget_thumb_at_zero:
  "data_get (example_env\<lparr>data_get := \<lambda>n. ''10''\<rparr>) ''v'' = ''10''
   \<and> map_option (lines_in_color ''black'' \<circ> canvas_ops \<circ> fst)
        (drawScaleWidget_callback (example_env\<lparr>data_get := \<lambda>n. ''10''\<rparr>) example_scale
           example_scale_rect (Canvas 12 25 []) initial_state)
      = Some [DrawHLine 0 23 1, DrawHLine 0 22 2, DrawHLine 0 21 3, DrawHLine 0 20 2,
              DrawHLine 0 19 1]
   \<and> map_option (\<lambda>r. DrawHLine 0 11 3 \<in> set (lines_in_color ''white'' (canvas_ops (fst r))))
        (drawScaleWidget_callback (example_env\<lparr>data_get := \<lambda>n. ''10''\<rparr>) example_scale
           example_scale_rect (Canvas 12 25 []) initial_state)
      = Some True"
  by code_simp


subsection \<open>Border, inset and content\<close>

lemma wrap_word_result:
  assumes "wrap_word width height x1 x2 y2 xy = Some res" and "0 \<le> height" and "x1 \<le> fst xy"
  shows "x1 \<le> fst res \<and> snd xy \<le> snd res \<and> (snd res + height \<le> y2 \<longrightarrow> width \<le> x2 - fst res + 1)"
  using assms
proof (induction width height x1 x2 y2 xy res
    rule: wrap_word.raw_induct [rotated, consumes 1, case_names step])
  case (step wrap_word' width height x1 x2 y2 xy res)
  obtain x0 y0 where xy: "xy = (x0, y0)" by (cases xy) auto
  show ?case
  proof (cases "width > x2 - x0 + 1")
    case False
    with step(2) xy have "res = (x0, y0)" by simp
    with False xy step(4) show ?thesis by simp
  next
    case True
    show ?thesis
    proof (cases "y0 + height + height > y2")
      case stop: True
      with True step(2) xy have "res = (x0, y0 + height)" by simp
      with stop xy step(3,4) show ?thesis by simp
    next
      case False
      with True step(2) xy have "wrap_word' width height x1 x2 y2 (x1, y0 + height) = Some res"
        by simp
      from step(1) [OF this step(3)] have "x1 \<le> fst res \<and> y0 + height \<le> snd res \<and>
          (snd res + height \<le> y2 \<longrightarrow> width \<le> x2 - fst res + 1)" by simp
      with xy step(3) show ?thesis by simp
    qed
  qed
qed

lemma Math_floor_nonneg: "0 \<le> x \<Longrightarrow> 0 \<le> Math_floor x"
  by (simp add: Math_floor_def)

text \<open>
  The loop invariant of the word wrap: every word is drawn with its left edge at or right
  of \<open>x1\<close>, its right edge at or left of \<open>x2\<close>, and a line box between \<open>ylow\<close> and \<open>y2\<close>. \<open>Q\<close>
  is any property of painting calls that holds for such a word.
\<close>

lemma multiline_loop_invariant:
  assumes "multiline_loop m font str colors x1 x2 y2 height spaceWidth ixy acc = Some res"
    and "0 \<le> height" and "0 \<le> spaceWidth" and "\<forall>word. 0 \<le> m word font 0"
    and "x1 \<le> fst (snd ixy)" and "ylow \<le> snd (snd ixy)"
    and "\<forall>op \<in> set colors. Q op" and "\<forall>op \<in> set acc. Q op"
    and "\<forall>word x y. x1 \<le> x \<and> x + m word font 0 - 1 \<le> x2 \<and> ylow \<le> y \<and> y + height \<le> y2
            \<longrightarrow> Q (DrawStr word x y font)"
  shows "\<forall>op \<in> set res. Q op"
  using assms
proof (induction m font str colors x1 x2 y2 height spaceWidth ixy acc res
    rule: multiline_loop.raw_induct [rotated, consumes 1, case_names step])
  case (step loop m font str colors x1 x2 y2 height spaceWidth ixy acc res)
  obtain j x0 y0 where ixy: "ixy = (j, x0, y0)" by (cases ixy) auto
  define word where "word = takeWhile (\<lambda>c. \<not> is_space c \<and> \<not> is_newline c) (drop j str)"
  define i where "i = j + length word"
  define width where "width = m word font 0"
  have width: "0 \<le> width" using step(5) by (simp add: width_def)
  have "wrap_word width height x1 x2 y2 (x0, y0) \<noteq> None"
    using step(2) unfolding ixy word_def i_def width_def
    by (auto simp: Let_def split: option.splits)
  then obtain x y where w: "wrap_word width height x1 x2 y2 (x0, y0) = Some (x, y)" by auto
  from wrap_word_result [OF w step(3)] step(6) ixy
  have wx: "x1 \<le> x" and wy: "y0 \<le> y" and ww: "y + height \<le> y2 \<longrightarrow> width \<le> x2 - x + 1"
    by simp_all
  have y0: "ylow \<le> y0" using step(7) ixy by simp
  define acc' where "acc' = acc @ colors @ [DrawStr word x y font]"
  define spaces where "spaces = length (takeWhile is_space (drop i str))"
  define x' where "x' = x + width + int spaces * spaceWidth"
  define i' where "i' = i + spaces"
  define y' where "y' = y + height + Math_floor (2 / 10 * of_int height)"
  have body: "(if y2 < y + height then Some acc
               else if i' = length str \<or> is_newline (str ! i')
                    then if i' = length str then Some acc'
                         else if y2 < y' + height then Some acc'
                              else loop m font str colors x1 x2 y2 height spaceWidth (i' + 1, x1, y') acc'
                    else loop m font str colors x1 x2 y2 height spaceWidth (i', x', y) acc') = Some res"
    using step(2) w unfolding ixy acc'_def spaces_def x'_def i'_def y'_def i_def width_def word_def
    by (auto simp add: Let_def split: if_splits)
  show ?case
  proof (cases "y2 < y + height")
    case True
    with body have "res = acc" by simp
    with step(9) show ?thesis by simp
  next
    case False
    then have fit: "y + height \<le> y2" by simp
    with ww have "x + width - 1 \<le> x2" by simp
    with wx wy y0 fit step(10) have "Q (DrawStr word x y font)"
      unfolding width_def by auto
    with step(8,9) have acc': "\<forall>op \<in> set acc'. Q op" by (auto simp: acc'_def)
    have extra: "0 \<le> Math_floor (2 / 10 * of_int height)"
      using step(3) by (intro Math_floor_nonneg) simp
    have x'_ok: "x1 \<le> x'"
    proof -
      have "0 \<le> int spaces * spaceWidth" using step(4) by simp
      with wx width show ?thesis unfolding x'_def by linarith
    qed
    have y'_ok: "ylow \<le> y'" using wy y0 extra step(3) unfolding y'_def by linarith
    have y_ok: "ylow \<le> y" using wy y0 by simp
    show ?thesis
    proof (cases "i' = length str")
      case True
      with False body have "res = acc'" by simp
      with acc' show ?thesis by simp
    next
      case notend: False
      show ?thesis
      proof (cases "is_newline (str ! i')")
        case True
        show ?thesis
        proof (cases "y2 < y' + height")
          case True
          with False notend \<open>is_newline (str ! i')\<close> body have "res = acc'" by simp
          with acc' show ?thesis by simp
        next
          case nostop: False
          with False notend True body
          have rec: "loop m font str colors x1 x2 y2 height spaceWidth (i' + 1, x1, y') acc' = Some res"
            by simp
          show ?thesis
            by (rule step(1) [OF rec step(3) step(4) step(5) _ _ step(8) acc' step(10)])
               (simp_all add: y'_ok)
        qed
      next
        case False
        with \<open>\<not> y2 < y + height\<close> notend body
        have rec: "loop m font str colors x1 x2 y2 height spaceWidth (i', x', y) acc' = Some res"
          by simp
        show ?thesis
          by (rule step(1) [OF rec step(3) step(4) step(5) _ _ step(8) acc' step(10)])
             (simp_all add: x'_ok y_ok)
      qed
    qed
  qed
qed

lemma wrap_word_returns:
  assumes "0 < height"
  shows "\<exists>res. wrap_word width height x1 x2 y2 xy = Some res"
proof (induction "nat (y2 - snd xy)" arbitrary: xy rule: less_induct)
  case less
  obtain x y where xy: "xy = (x, y)" by (cases xy) auto
  show ?case
  proof (cases "width > x2 - x + 1 \<and> \<not> y + height + height > y2")
    case True
    then have "nat (y2 - snd (x1, y + height)) < nat (y2 - snd xy)"
      using assms xy by simp
    from less [OF this] obtain res where "wrap_word width height x1 x2 y2 (x1, y + height) = Some res"
      by blast
    with True xy show ?thesis by (subst wrap_word.simps) simp
  next
    case False
    with xy show ?thesis by (subst wrap_word.simps) auto
  qed
qed

lemma word_or_space_advances:
  assumes "j < length str"
    and "takeWhile (\<lambda>c. \<not> is_space c \<and> \<not> is_newline c) (drop j str) = []"
    and "takeWhile is_space (drop j str) = []"
  shows "is_newline (str ! j)"
proof -
  from assms(1) have d: "drop j str = str ! j # drop (Suc j) str"
    by (simp add: Cons_nth_drop_Suc)
  from assms(2,3) show ?thesis unfolding d by (auto split: if_splits)
qed

lemma multiline_loop_returns:
  assumes "0 < height" and "j \<le> length str"
  shows "\<exists>res. multiline_loop m font str colors x1 x2 y2 height spaceWidth (j, x0, y0) acc = Some res"
  using assms(2)
proof (induction "length str - j" arbitrary: j x0 y0 acc rule: less_induct)
  case less
  define word where "word = takeWhile (\<lambda>c. \<not> is_space c \<and> \<not> is_newline c) (drop j str)"
  define i where "i = j + length word"
  define width where "width = m word font 0"
  from wrap_word_returns [OF assms(1)] obtain x y
    where w: "wrap_word width height x1 x2 y2 (x0, y0) = Some (x, y)" by fastforce
  define acc' where "acc' = acc @ colors @ [DrawStr word x y font]"
  define spaces where "spaces = length (takeWhile is_space (drop i str))"
  define x' where "x' = x + width + int spaces * spaceWidth"
  define i' where "i' = i + spaces"
  define y' where "y' = y + height + Math_floor (2 / 10 * of_int height)"
  have body: "multiline_loop m font str colors x1 x2 y2 height spaceWidth (j, x0, y0) acc =
              (if y2 < y + height then Some acc
               else if i' = length str \<or> is_newline (str ! i')
                    then if i' = length str then Some acc'
                         else if y2 < y' + height then Some acc'
                              else multiline_loop m font str colors x1 x2 y2 height spaceWidth (i' + 1, x1, y') acc'
                    else multiline_loop m font str colors x1 x2 y2 height spaceWidth (i', x', y) acc')"
    using w unfolding acc'_def spaces_def x'_def i'_def y'_def i_def width_def word_def
    by (subst multiline_loop.simps) (auto simp add: Let_def)
  have "length word \<le> length (drop j str)"
    unfolding word_def by (rule length_takeWhile_le)
  with less(2) have i_le: "i \<le> length str" unfolding i_def by simp
  have "spaces \<le> length (drop i str)"
    unfolding spaces_def by (rule length_takeWhile_le)
  with i_le have i'_le: "i' \<le> length str" unfolding i'_def by simp
  have j_le: "j \<le> i'" unfolding i'_def i_def by simp
  show ?case
  proof (cases "i' = length str")
    case True
    with body show ?thesis by simp
  next
    case False
    with i'_le have lt: "i' < length str" by simp
    show ?thesis
    proof (cases "is_newline (str ! i')")
      case True
      have "length str - (i' + 1) < length str - j" using lt j_le by simp
      from less(1) [OF this, of x1 y' acc'] lt
      obtain res where "multiline_loop m font str colors x1 x2 y2 height spaceWidth (i' + 1, x1, y') acc' = Some res"
        by auto
      with body True False show ?thesis by simp
    next
      case nonl: False
      have "j < i'"
      proof (rule ccontr)
        assume "\<not> j < i'"
        with j_le have eq: "i' = j" by simp
        then have "word = []" and "spaces = 0" unfolding i'_def i_def by simp_all
        then have "takeWhile (\<lambda>c. \<not> is_space c \<and> \<not> is_newline c) (drop j str) = []"
          and "takeWhile is_space (drop j str) = []"
          unfolding word_def spaces_def i_def by simp_all
        from word_or_space_advances [OF _ this] lt eq nonl show False by simp
      qed
      then have "length str - i' < length str - j" using lt by simp
      from less(1) [OF this, of x' y acc'] i'_le
      obtain res where "multiline_loop m font str colors x1 x2 y2 height spaceWidth (i', x', y) acc' = Some res"
        by auto
      with body nonl False show ?thesis by simp
    qed
  qed
qed

lemma inset_corners:
  assumes "0 \<le> or_zero (styleGetBorderSize env style)"
    and "border_step env style w h = (bops, x1, y1, x2, y2, r)"
  shows "x1 = or_zero (styleGetBorderSize env style) \<and> y1 = or_zero (styleGetBorderSize env style)
       \<and> x2 = w - 1 - or_zero (styleGetBorderSize env style)
       \<and> y2 = h - 1 - or_zero (styleGetBorderSize env style)"
  using assms by (auto simp: border_step_eq split: if_splits)

lemma follows_geometryI:
  assumes "0 \<le> or_zero (styleGetBorderSize env style)"
    and "0 \<le> or_zero (styleGetBorderRadius env style)"
    and "border_step env style w h = (bops, x1, y1, x2, y2, r)"
    and "canvas_ops canvas = bops @ SetColor c # FillRect x1 y1 x2 y2 (Some r) # content"
  shows "follows_geometry env style w h canvas"
  using assms by (auto simp: follows_geometry_def border_step_eq Let_def split: if_splits)

lemma content_opsI:
  assumes "border_step env style w h = (bops, x1, y1, x2, y2, r)"
    and "canvas_ops canvas = bops @ a # b # content"
  shows "content_ops env style w h canvas = content"
  using assms by (simp add: content_ops_def border_ops_def)

lemma paints_inside_simps:
  "paints_inside env a b c d (SetColor col)"
  "paints_inside env a b c d (SetBackColor col)"
  "paints_inside env a b c d (FillRect p q r s rad) = (a \<le> p \<and> r \<le> c \<and> b \<le> q \<and> s \<le> d)"
  "paints_inside env a b c d (DrawStr t x y f) =
     (a \<le> x \<and> x + measureStr env t f 0 - 1 \<le> c \<and> b \<le> y \<and> y + font_height f - 1 \<le> d)"
  "paints_inside env a b c d (DrawBitmap i x y wd ht) =
     (a \<le> x \<and> x + wd - 1 \<le> c \<and> b \<le> y \<and> y + ht - 1 \<le> d)"
  by (simp_all add: paints_inside_def op_box_def)

lemma text_colors_inside:
  "list_all (paints_inside env a b c d) (text_colors inverse' c1 c2)"
  by (simp add: text_colors_def paints_inside_simps)

text \<open>
  The three alignments place a box of the given size between \<open>lo\<close> and \<open>hi\<close> when the size
  and the padding fit there; \<open>k\<close> is the \<open>1\<close> that \<^verbatim>\<open>drawText\<close> adds when it centres and
  \<^verbatim>\<open>drawBitmap\<close> does not.
\<close>

lemma aligned_offset_inside:
  fixes lo hi size' pad k off :: int
  assumes "0 \<le> pad" and "size' + pad \<le> hi - lo" and "0 \<le> k" and "k \<le> 1"
    and "off = lo + pad \<or> off = hi - pad - size'
         \<or> off = Math_floor (of_int lo + of_int (hi - lo + k - size') / 2)"
  shows "lo \<le> off \<and> off + size' - 1 \<le> hi"
proof -
  have c: "Math_floor (of_int lo + of_int (hi - lo + k - size') / 2) = lo + (hi - lo + k - size') div 2"
    unfolding Math_floor_def by (rule floor_int_plus_half)
  have n: "0 \<le> hi - lo + k - size'" using assms(1-3) by linarith
  then have "0 \<le> (hi - lo + k - size') div 2" and "(hi - lo + k - size') div 2 \<le> hi - lo + k - size'"
    by simp_all
  with assms show ?thesis unfolding c by auto
qed

lemma border_step_cases:
  obtains bops x1 y1 x2 y2 r where "border_step env style w h = (bops, x1, y1, x2, y2, r)"
  using prod_cases6 by blast

lemma drawBitmap_geometry:
  assumes B: "0 \<le> or_zero (styleGetBorderSize env style)"
    and R: "0 \<le> or_zero (styleGetBorderRadius env style)"
  shows "\<exists>canvas st'. drawBitmap_callback env bitmap img w h style inverse' (Canvas w h []) st
                         = Some (canvas, st')
           \<and> follows_geometry env style w h canvas
           \<and> (bitmap_fits env style w h img \<longrightarrow> content_within env style w h canvas)"
proof -
  obtain bops x1 y1 x2 y2 r where bs: "border_step env style w h = (bops, x1, y1, x2, y2, r)"
    by (rule border_step_cases)
  note c = inset_corners [OF B bs]
  define ph where "ph = p_paddingHorizontal (getStyleProperty env style)"
  define pv where "pv = p_paddingVertical (getStyleProperty env style)"
  define X where "X = (if styleIsHorzAlignLeft env style then x1 + ph
                       else if styleIsHorzAlignRight env style then x2 - ph - image_width img
                       else Math_floor (of_int x1 + of_int (x2 - x1 - image_width img) / 2))"
  define Y where "Y = (if styleIsVertAlignTop env style then y1 + pv
                       else if styleIsVertAlignBottom env style then y2 - pv - image_height img
                       else Math_floor (of_int y1 + of_int (y2 - y1 - image_height img) / 2))"
  define bg where "bg = (if inverse' then p_color (getStyleProperty env style)
                         else p_backgroundColor (getStyleProperty env style))"
  define content where "content =
     [SetColor bg, FillRect x1 y1 x2 y2 None]
     @ text_colors inverse' (p_color (getStyleProperty env style))
         (p_backgroundColor (getStyleProperty env style))
     @ [SetColor (if truthy (bitmap_backgroundColor bitmap)
                  then the (bitmap_backgroundColor bitmap) else ''transparent''),
        FillRect X Y (X + image_width img - 1) (Y + image_height img - 1) None,
        DrawBitmap img X Y (image_width img) (image_height img)]"
  define canvas where "canvas = Canvas w h (bops @ SetColor bg # FillRect x1 y1 x2 y2 (Some r) # content)"
  have eq: "drawBitmap_callback env bitmap img w h style inverse' (Canvas w h []) st = Some (canvas, st)"
    unfolding drawBitmap_callback_eq [OF bs] paint_fresh canvas_def content_def X_def Y_def bg_def
      ph_def pv_def
    by simp
  have g: "follows_geometry env style w h canvas"
    by (rule follows_geometryI [OF B R bs]) (simp add: canvas_def)
  have co: "content_ops env style w h canvas = content"
    by (rule content_opsI [OF bs]) (simp add: canvas_def)
  have "content_within env style w h canvas" if fits: "bitmap_fits env style w h img"
  proof -
    from fits c have ph: "0 \<le> ph" and pv: "0 \<le> pv"
      and fw: "image_width img + ph \<le> x2 - x1" and fh: "image_height img + pv \<le> y2 - y1"
      unfolding bitmap_fits_def Let_def ph_def pv_def by simp_all
    have X: "x1 \<le> X \<and> X + image_width img - 1 \<le> x2"
      by (rule aligned_offset_inside [OF ph fw, of 0]) (simp_all add: X_def)
    have Y: "y1 \<le> Y \<and> Y + image_height img - 1 \<le> y2"
      by (rule aligned_offset_inside [OF pv fh, of 0]) (simp_all add: Y_def)
    have "list_all (paints_inside env x1 y1 x2 y2) content"
      unfolding content_def using X Y by (simp add: paints_inside_simps text_colors_inside)
    with c show ?thesis unfolding content_within_def Let_def co by simp
  qed
  with eq g show ?thesis by blast
qed

lemma drawText_geometry:
  assumes B: "0 \<le> or_zero (styleGetBorderSize env style)"
    and R: "0 \<le> or_zero (styleGetBorderRadius env style)"
  shows "\<exists>canvas st'. drawText_callback env str w h style inverse' ov (Canvas w h []) st
                         = Some (canvas, st')
           \<and> follows_geometry env style w h canvas
           \<and> (text_fits env style w h (fst (unescape env str st))
                \<longrightarrow> content_within env style w h canvas)"
proof -
  obtain bops x1 y1 x2 y2 r where bs: "border_step env style w h = (bops, x1, y1, x2, y2, r)"
    by (rule border_step_cases)
  note c = inset_corners [OF B bs]
  define bg where "bg = (if inverse' then p_color (getStyleProperty env style)
                         else (case ov of Some c \<Rightarrow> c
                               | None \<Rightarrow> p_backgroundColor (getStyleProperty env style)))"
  show ?thesis
  proof (cases "styleGetFont env style")
    case None
    define canvas where "canvas = Canvas w h (bops @ SetColor bg # FillRect x1 y1 x2 y2 (Some r) # [])"
    have eq: "drawText_callback env str w h style inverse' ov (Canvas w h []) st = Some (canvas, st)"
      unfolding drawText_callback_None [OF bs None] paint_fresh canvas_def bg_def by simp
    have g: "follows_geometry env style w h canvas"
      by (rule follows_geometryI [OF B R bs]) (simp add: canvas_def)
    have co: "content_ops env style w h canvas = []"
      by (rule content_opsI [OF bs]) (simp add: canvas_def)
    have "content_within env style w h canvas"
      unfolding content_within_def Let_def co by simp
    with eq g show ?thesis by blast
  next
    case (Some font)
    obtain str' st1 where u: "unescape env str st = (str', st1)"
      by (cases "unescape env str st") auto
    define ph where "ph = p_paddingHorizontal (getStyleProperty env style)"
    define pv where "pv = p_paddingVertical (getStyleProperty env style)"
    define width where "width = measureStr env str' font (x2 - x1 + 1)"
    define X where "X = (if styleIsHorzAlignLeft env style then x1 + ph
                         else if styleIsHorzAlignRight env style then x2 - ph - width
                         else Math_floor (of_int x1 + of_int (x2 - x1 + 1 - width) / 2))"
    define Y where "Y = (if styleIsVertAlignTop env style then y1 + pv
                         else if styleIsVertAlignBottom env style then y2 - pv - font_height font
                         else Math_floor (of_int y1 + of_int (y2 - y1 + 1 - font_height font) / 2))"
    define content where "content =
       text_colors inverse' (p_color (getStyleProperty env style))
         (case ov of Some c \<Rightarrow> c | None \<Rightarrow> p_backgroundColor (getStyleProperty env style))
       @ [DrawStr str' X Y font]"
    define canvas where "canvas = Canvas w h (bops @ SetColor bg # FillRect x1 y1 x2 y2 (Some r) # content)"
    have eq: "drawText_callback env str w h style inverse' ov (Canvas w h []) st = Some (canvas, st1)"
      unfolding drawText_callback_Some [OF bs Some u] paint_fresh canvas_def content_def X_def Y_def
        bg_def ph_def pv_def width_def
      by simp
    have g: "follows_geometry env style w h canvas"
      by (rule follows_geometryI [OF B R bs]) (simp add: canvas_def)
    have co: "content_ops env style w h canvas = content"
      by (rule content_opsI [OF bs]) (simp add: canvas_def)
    have "content_within env style w h canvas" if fits: "text_fits env style w h str'"
    proof -
      have span: "x2 - x1 + 1 = w - 1 - 2 * or_zero (styleGetBorderSize env style) + 1"
        using c by simp
      from fits c Some have ph: "0 \<le> ph" and pv: "0 \<le> pv"
        and full: "width = measureStr env str' font 0"
        and fw: "width + ph \<le> x2 - x1" and fh: "font_height font + pv \<le> y2 - y1"
        unfolding text_fits_def Let_def ph_def pv_def width_def span by simp_all
      have X: "x1 \<le> X \<and> X + width - 1 \<le> x2"
        by (rule aligned_offset_inside [OF ph fw, of 1]) (simp_all add: X_def)
      have Y: "y1 \<le> Y \<and> Y + font_height font - 1 \<le> y2"
        by (rule aligned_offset_inside [OF pv fh, of 1]) (simp_all add: Y_def)
      have "list_all (paints_inside env x1 y1 x2 y2) content"
        unfolding content_def using X Y full by (simp add: paints_inside_simps text_colors_inside)
      with c show ?thesis unfolding content_within_def Let_def co by simp
    qed
    with eq g u show ?thesis by auto
  qed
qed

lemma drawMultilineText_geometry:
  assumes B: "0 \<le> or_zero (styleGetBorderSize env style)"
    and R: "0 \<le> or_zero (styleGetBorderRadius env style)"
    and ret: "drawMultilineText_callback env str w h style inverse' (Canvas w h []) st
                = Some (canvas, st')"
  shows "follows_geometry env style w h canvas
       \<and> (multiline_fits env style \<and> (\<forall>word font. 0 \<le> measureStr env word font 0)
            \<longrightarrow> content_within env style w h canvas)"
proof -
  obtain bops x1 y1 x2 y2 r where bs: "border_step env style w h = (bops, x1, y1, x2, y2, r)"
    by (rule border_step_cases)
  note c = inset_corners [OF B bs]
  define bg where "bg = (if inverse' then p_color (getStyleProperty env style)
                         else p_backgroundColor (getStyleProperty env style))"
  show ?thesis
  proof (cases "styleGetFont env style")
    case None
    from ret have canvas: "canvas = Canvas w h (bops @ SetColor bg # FillRect x1 y1 x2 y2 (Some r) # [])"
      unfolding drawMultilineText_callback_None [OF bs None] paint_fresh bg_def by simp
    have g: "follows_geometry env style w h canvas"
      by (rule follows_geometryI [OF B R bs]) (simp add: canvas)
    have co: "content_ops env style w h canvas = []"
      by (rule content_opsI [OF bs]) (simp add: canvas)
    have "content_within env style w h canvas"
      unfolding content_within_def Let_def co by simp
    with g show ?thesis by simp
  next
    case (Some font)
    obtain str' st1 where u: "unescape env str st = (str', st1)"
      by (cases "unescape env str st") auto
    define ph where "ph = p_paddingHorizontal (getStyleProperty env style)"
    define pv where "pv = p_paddingVertical (getStyleProperty env style)"
    define height where "height = Math_floor (9 / 10 * of_int (font_height font))"
    define spaceWidth where "spaceWidth =
      (case find (\<lambda>glyph. encoding glyph = 32) (font_glyphs font) of
         None \<Rightarrow> 0 | Some glyph \<Rightarrow> dx glyph)"
    define colors where "colors = text_colors inverse' (p_color (getStyleProperty env style))
                                    (p_backgroundColor (getStyleProperty env style))"
    from ret obtain word_ops
      where loop: "multiline_loop (measureStr env) font str' colors (x1 + ph) (x2 - ph) (y2 - pv)
                     height spaceWidth (0, x1 + ph, y1 + pv) [] = Some word_ops"
        and canvas: "canvas = Canvas w h (bops @ SetColor bg # FillRect x1 y1 x2 y2 (Some r) # word_ops)"
      unfolding drawMultilineText_callback_Some [OF bs Some u] paint_fresh bg_def ph_def pv_def
        height_def spaceWidth_def colors_def
      by (auto split: option.splits)
    have g: "follows_geometry env style w h canvas"
      by (rule follows_geometryI [OF B R bs]) (simp add: canvas)
    have co: "content_ops env style w h canvas = word_ops"
      by (rule content_opsI [OF bs]) (simp add: canvas)
    have "content_within env style w h canvas"
      if fits: "multiline_fits env style" and widths: "\<forall>word font. 0 \<le> measureStr env word font 0"
    proof -
      from fits Some have ph: "0 \<le> ph" and pv: "0 \<le> pv" and fh: "0 \<le> font_height font"
        and over: "font_height font - 1 - height \<le> pv" and sw: "0 \<le> spaceWidth"
        unfolding multiline_fits_def ph_def pv_def height_def spaceWidth_def by simp_all
      have h0: "0 \<le> height" unfolding height_def using fh by (intro Math_floor_nonneg) simp
      have w0: "\<forall>word. 0 \<le> measureStr env word font 0" using widths by simp
      have cols: "\<forall>op \<in> set colors. paints_inside env x1 y1 x2 y2 op"
        using text_colors_inside [of env x1 y1 x2 y2] unfolding colors_def list_all_iff by simp
      have draw: "\<forall>word x y. x1 + ph \<le> x \<and> x + measureStr env word font 0 - 1 \<le> x2 - ph
                     \<and> y1 + pv \<le> y \<and> y + height \<le> y2 - pv
                   \<longrightarrow> paints_inside env x1 y1 x2 y2 (DrawStr word x y font)"
        using ph pv over by (auto simp: paints_inside_simps)
      have "\<forall>op \<in> set word_ops. paints_inside env x1 y1 x2 y2 op"
        by (rule multiline_loop_invariant [OF loop h0 sw w0 _ _ cols _ draw]) simp_all
      with c show ?thesis unfolding content_within_def Let_def co list_all_iff by simp
    qed
    with g show ?thesis by simp
  qed
qed

lemma drawMultilineText_returns:
  assumes "line_height_positive env style"
  shows "\<exists>canvas st'. drawMultilineText_callback env str w h style inverse' (Canvas w h []) st
                         = Some (canvas, st')"
proof -
  obtain bops x1 y1 x2 y2 r where bs: "border_step env style w h = (bops, x1, y1, x2, y2, r)"
    by (rule border_step_cases)
  show ?thesis
  proof (cases "styleGetFont env style")
    case None
    show ?thesis unfolding drawMultilineText_callback_None [OF bs None] by simp
  next
    case (Some font)
    obtain str' st1 where u: "unescape env str st = (str', st1)"
      by (cases "unescape env str st") auto
    from assms Some have h: "0 < Math_floor (9 / 10 * of_int (font_height font))"
      by (simp add: line_height_positive_def)
    have "0 \<le> length str'" by simp
    from multiline_loop_returns [OF h this] obtain word_ops
      where "multiline_loop (measureStr env) font str'
             (text_colors inverse' (p_color (getStyleProperty env style))
                (p_backgroundColor (getStyleProperty env style)))
             (x1 + p_paddingHorizontal (getStyleProperty env style))
             (x2 - p_paddingHorizontal (getStyleProperty env style))
             (y2 - p_paddingVertical (getStyleProperty env style))
             (Math_floor (9 / 10 * of_int (font_height font)))
             (case find (\<lambda>glyph. encoding glyph = 32) (font_glyphs font) of
                None \<Rightarrow> 0 | Some glyph \<Rightarrow> dx glyph)
             (0, x1 + p_paddingHorizontal (getStyleProperty env style),
              y1 + p_paddingVertical (getStyleProperty env style)) [] = Some word_ops"
      by blast
    then show ?thesis
      unfolding drawMultilineText_callback_Some [OF bs Some u] by simp
  qed
qed

text \<open>
  Claim C4 as stated fails in its last part. Nothing clips what a renderer paints after the
  inset fill: a 100 by 100 image centred on a 10 by 10 canvas with border size 1 is drawn
  at \<open>(-46, -46)\<close>, over the border and far outside the inset rectangle \<open>[1, 9) x [1, 9)\<close>,
  while the border fill and the inset fill are as the claim says.
\<close>

theorem content_outside_inset_counterexample:
  "or_zero (styleGetBorderSize example_env example_default_style) = 1
   \<and> or_zero (styleGetBorderRadius example_env example_default_style) = 0
   \<and> map_option (\<lambda>r. (follows_geometry example_env example_default_style 10 10 (fst r),
                       content_within example_env example_default_style 10 10 (fst r),
                       content_ops example_env example_default_style 10 10 (fst r)))
        (drawBitmap_callback example_env example_bitmap example_image 10 10 example_default_style False
           (Canvas 10 10 []) initial_state)
      = Some (True, False,
              [SetColor ''white'', FillRect 1 1 8 8 None, SetBackColor ''white'', SetColor ''black'',
               SetColor ''transparent'', FillRect (- 46) (- 46) 53 53 None,
               DrawBitmap example_image (- 46) (- 46) 100 100])"
  by code_simp

text \<open>
  Claim C4, amended. For \<^verbatim>\<open>drawText\<close>, \<^verbatim>\<open>drawMultilineText\<close> and \<^verbatim>\<open>drawBitmap\<close> with border size
  \<open>B \<ge> 0\<close> and border radius \<open>R \<ge> 0\<close> on a \<open>w\<close> by \<open>h\<close> canvas: when \<open>B > 0\<close> the border colour
  is painted on the full rounded rectangle first, the four edges are then inset by \<open>B\<close>
  with the inner radius \<open>max (R - B) 0\<close>, and the background fill covers exactly the inset
  rectangle. The content is placed relative to the inset rectangle and is not clipped: it
  stays within \<open>[B, w - B) x [B, h - B)\<close> when it fits, that is when the paddings are not
  negative and the text or image together with its padding is smaller than the inset
  rectangle; for the word wrap, when no measured width is negative and the vertical
  padding covers the rows by which the font exceeds the line height. \<^verbatim>\<open>drawText\<close> and
  \<^verbatim>\<open>drawBitmap\<close> always return; \<^verbatim>\<open>drawMultilineText\<close> returns when the line height is positive.
\<close>

theorem border_inset_geometry:
  assumes "0 \<le> or_zero (styleGetBorderSize env style)"
    and "0 \<le> or_zero (styleGetBorderRadius env style)"
  shows "(\<exists>canvas st'. drawText_callback env str w h style inverse' ov (Canvas w h []) st
                          = Some (canvas, st')
            \<and> follows_geometry env style w h canvas
            \<and> (text_fits env style w h (fst (unescape env str st))
                 \<longrightarrow> content_within env style w h canvas))
       \<and> (\<exists>canvas st'. drawBitmap_callback env bitmap img w h style inverse' (Canvas w h []) st
                          = Some (canvas, st')
            \<and> follows_geometry env style w h canvas
            \<and> (bitmap_fits env style w h img \<longrightarrow> content_within env style w h canvas))
       \<and> (line_height_positive env style \<longrightarrow>
            (\<exists>canvas st'. drawMultilineText_callback env str w h style inverse' (Canvas w h []) st
                             = Some (canvas, st')))
       \<and> (\<forall>canvas st'. drawMultilineText_callback env str w h style inverse' (Canvas w h []) st
                          = Some (canvas, st') \<longrightarrow>
              follows_geometry env style w h canvas
            \<and> (multiline_fits env style \<and> (\<forall>word font. 0 \<le> measureStr env word font 0)
                 \<longrightarrow> content_within env style w h canvas))"
proof (intro conjI impI allI)
  show "\<exists>canvas st'. drawText_callback env str w h style inverse' ov (Canvas w h []) st
                          = Some (canvas, st')
            \<and> follows_geometry env style w h canvas
            \<and> (text_fits env style w h (fst (unescape env str st))
                 \<longrightarrow> content_within env style w h canvas)"
    by (rule drawText_geometry [OF assms])
  show "\<exists>canvas st'. drawBitmap_callback env bitmap img w h style inverse' (Canvas w h []) st
                          = Some (canvas, st')
            \<and> follows_geometry env style w h canvas
            \<and> (bitmap_fits env style w h img \<longrightarrow> content_within env style w h canvas)"
    by (rule drawBitmap_geometry [OF assms])
next
  assume "line_height_positive env style"
  then show "\<exists>canvas st'. drawMultilineText_callback env str w h style inverse' (Canvas w h []) st
                             = Some (canvas, st')"
    by (rule drawMultilineText_returns)
next
  fix canvas st'
  assume ret: "drawMultilineText_callback env str w h style inverse' (Canvas w h []) st
                 = Some (canvas, st')"
  from drawMultilineText_geometry [OF assms ret]
  show "follows_geometry env style w h canvas" by simp
  assume "multiline_fits env style \<and> (\<forall>word font. 0 \<le> measureStr env word font 0)"
  with drawMultilineText_geometry [OF assms ret]
  show "content_within env style w h canvas" by simp
qed

theorem border_inset_geometry_witness:
  "0 \<le> or_zero (styleGetBorderSize example_env example_default_style)
   \<and> 0 \<le> or_zero (styleGetBorderRadius example_env example_default_style)
   \<and> text_fits example_env example_default_style 40 20 (fst (unescape example_env ''ab cd'' initial_state))
   \<and> bitmap_fits example_env example_default_style 40 20 example_small_image
   \<and> line_height_positive example_env example_default_style
   \<and> multiline_fits example_env example_default_style
   \<and> (\<forall>word font. 0 \<le> measureStr example_env word font 0)
   \<and> (\<exists>canvas st'. drawText_callback example_env ''ab cd'' 40 20 example_default_style False None
                      (Canvas 40 20 []) initial_state = Some (canvas, st')
        \<and> follows_geometry example_env example_default_style 40 20 canvas
        \<and> content_within example_env example_default_style 40 20 canvas)
   \<and> (\<exists>canvas st'. drawBitmap_callback example_env example_bitmap example_small_image 40 20
                      example_default_style False (Canvas 40 20 []) initial_state = Some (canvas, st')
        \<and> follows_geometry example_env example_default_style 40 20 canvas
        \<and> content_within example_env example_default_style 40 20 canvas)
   \<and> (\<exists>canvas st'. drawMultilineText_callback example_env ''ab cd'' 40 20 example_default_style False
                      (Canvas 40 20 []) initial_state = Some (canvas, st')
        \<and> follows_geometry example_env example_default_style 40 20 canvas
        \<and> content_within example_env example_default_style 40 20 canvas)"
proof -
  have B: "0 \<le> or_zero (styleGetBorderSize example_env example_default_style)" by code_simp
  have R: "0 \<le> or_zero (styleGetBorderRadius example_env example_default_style)" by code_simp
  have tf: "text_fits example_env example_default_style 40 20
              (fst (unescape example_env ''ab cd'' initial_state))"
    by code_simp
  have bf: "bitmap_fits example_env example_default_style 40 20 example_small_image" by code_simp
  have lh: "line_height_positive example_env example_default_style" by code_simp
  have mf: "multiline_fits example_env example_default_style" by code_simp
  have ms: "\<forall>word font. 0 \<le> measureStr example_env word font 0" by (simp add: example_env_def)
  note g = border_inset_geometry [OF B R, where str = "''ab cd''" and w = 40 and h = 20
      and inverse' = False and ov = None and st = initial_state and bitmap = example_bitmap
      and img = example_small_image]
  from g tf have t: "\<exists>canvas st'. drawText_callback example_env ''ab cd'' 40 20 example_default_style
                      False None (Canvas 40 20 []) initial_state = Some (canvas, st')
        \<and> follows_geometry example_env example_default_style 40 20 canvas
        \<and> content_within example_env example_default_style 40 20 canvas"
    by blast
  from g bf have b: "\<exists>canvas st'. drawBitmap_callback example_env example_bitmap example_small_image
                      40 20 example_default_style False (Canvas 40 20 []) initial_state
                      = Some (canvas, st')
        \<and> follows_geometry example_env example_default_style 40 20 canvas
        \<and> content_within example_env example_default_style 40 20 canvas"
    by blast
  from g lh mf ms have m: "\<exists>canvas st'. drawMultilineText_callback example_env ''ab cd'' 40 20
                      example_default_style False (Canvas 40 20 []) initial_state = Some (canvas, st')
        \<and> follows_geometry example_env example_default_style 40 20 canvas
        \<and> content_within example_env example_default_style 40 20 canvas"
    by blast
  from B R tf bf lh mf ms t b m show ?thesis by (intro conjI)
qed

end
